theory Spec2Isabelle
  imports Main "HOL-Library.Char_ord" "HOL-Library.List_Lexorder" "HOL-Library.Multiset"
begin

section \<open>Registry asset builder: a shallow embedding of build-registry-assets.py\<close>

text \<open>
  The script packages module directories into normalised tar.gz archives and assembles a
  registry index. Each function of the script is a HOL function of the same name; what the
  script reads from its surroundings (the file system under a module directory, the legacy
  index, the clock, the standard library's hash and archive encoders) is an explicit
  argument, and every \<^verbatim>\<open>raise\<close> is a value of type \<open>error\<close>.

  Strings are \<open>char list\<close>. A character is one byte of UTF-8 text. File names are taken
  to be valid UTF-8, for which comparing two names byte by byte orders them as Python orders
  the decoded strings by code point; a name that does not decode is not represented. A
  descriptor is taken to be ASCII text: the white space of \<^verbatim>\<open>str.strip\<close> and of
  \<^verbatim>\<open>\s\<close> and the line breaks of \<^verbatim>\<open>str.splitlines\<close> are the ASCII part of Python's sets,
  and the decoding step of \<^verbatim>\<open>read_text\<close>, which cannot fail on ASCII, is left out.
\<close>

subsection \<open>Paths and errors\<close>

type_synonym bytes = "char list"

text \<open>A path is its list of components, relative to the directory the script resolves
  it from; \<open>as_posix\<close> joins the components with a slash.\<close>

type_synonym path = "string list"

fun as_posix :: "path \<Rightarrow> string" where
  "as_posix [] = ''.''"
| "as_posix [c] = c"
| "as_posix (c # d # cs) = c @ ''/'' @ as_posix (d # cs)"

text \<open>The three messages of \<^verbatim>\<open>RuntimeError\<close> that refuse a link.\<close>

datatype refusal = SymlinkedDirectory | SymlinkedFile | SymlinkOrHardlink

text \<open>
  \<open>NeverReturns\<close> is not an exception: it stands for a call that does not come back, the
  \<^verbatim>\<open>open\<close> of a pipe that nobody writes to. It is kept among the outcomes so that the
  functions stay total; a run that ends with it writes nothing more.
\<close>

datatype error =
    MetadataIncomplete "string list" path
  | SymlinkRejected refusal path
  | IOFailure path
  | AttributeError
  | NeverReturns path

subsection \<open>The module descriptor reader\<close>

record ModuleMeta =
  name :: string
  version :: string
  tier :: string
  responsibility :: string

definition is_space :: "char \<Rightarrow> bool" where
  "is_space c = (c \<in> set [CHR 0x09, CHR 0x0A, CHR 0x0B, CHR 0x0C, CHR 0x0D,
                            CHR 0x1C, CHR 0x1D, CHR 0x1E, CHR 0x1F, CHR '' ''])"

definition is_linebreak :: "char \<Rightarrow> bool" where
  "is_linebreak c = (c \<in> set [CHR 0x0A, CHR 0x0B, CHR 0x0C, CHR 0x0D, CHR 0x1C, CHR 0x1D, CHR 0x1E])"

definition strip :: "string \<Rightarrow> string" where
  "strip s = rev (dropWhile is_space (rev (dropWhile is_space s)))"

text \<open>\<^verbatim>\<open>str.splitlines()\<close>: a line ends at a line break character, \<^verbatim>\<open>\r\n\<close> counts
  as one break, and no empty line follows the last break.\<close>

fun splitlines_from :: "string \<Rightarrow> string \<Rightarrow> string list" where
  "splitlines_from cur [] = (if cur = [] then [] else [cur])"
| "splitlines_from cur [c] = (if is_linebreak c then [cur] else [cur @ [c]])"
| "splitlines_from cur (c # d # cs) =
     (if c = CHR 0x0D \<and> d = CHR 0x0A then cur # splitlines_from [] cs
      else if is_linebreak c then cur # splitlines_from [] (d # cs)
      else splitlines_from (cur @ [c]) (d # cs))"

definition splitlines :: "string \<Rightarrow> string list" where
  "splitlines s = splitlines_from [] s"

definition is_key_char :: "char \<Rightarrow> bool" where
  "is_key_char c = ((CHR ''a'' \<le> c \<and> c \<le> CHR ''z'') \<or> (CHR ''A'' \<le> c \<and> c \<le> CHR ''Z'')
                    \<or> (CHR ''0'' \<le> c \<and> c \<le> CHR ''9'') \<or> c = CHR ''_'')"

text \<open>
  \<^verbatim>\<open>re.match(r"^([a-zA-Z0-9_]+):\s*(.+?)\s*$", line)\<close> on a line without a line break,
  giving the two groups. The first group is the longest run of key characters, since the
  colon that must follow is not one. After the colon at least one character must remain.
  The greedy \<^verbatim>\<open>\s*\<close> takes the leading white space and the lazy group stops as soon as
  only white space is left, so the second group is the remainder stripped on both sides;
  when the remainder is white space only, the match gives back its last character to the
  group.
\<close>

definition re_match :: "string \<Rightarrow> (string \<times> string) option" where
  "re_match line =
     (let key = takeWhile is_key_char line; rest = dropWhile is_key_char line in
      if key = [] then None
      else (case rest of
              [] \<Rightarrow> None
            | c # r \<Rightarrow>
                if c \<noteq> CHR '':'' \<or> r = [] then None
                else Some (key, if strip r = [] then [last r] else strip r)))"

definition wanted :: "string list" where
  "wanted = [''name'', ''version'', ''tier'', ''responsibility'']"

definition startswith :: "string \<Rightarrow> char \<Rightarrow> bool" where
  "startswith s c = (s \<noteq> [] \<and> hd s = c)"

definition endswith :: "string \<Rightarrow> char \<Rightarrow> bool" where
  "endswith s c = (s \<noteq> [] \<and> last s = c)"

text \<open>\<^verbatim>\<open>val[1:-1]\<close> when both ends carry the same quote character.\<close>

definition unquote :: "string \<Rightarrow> string" where
  "unquote val =
     (if (startswith val (CHR 0x22) \<and> endswith val (CHR 0x22))
         \<or> (startswith val (CHR 0x27) \<and> endswith val (CHR 0x27))
      then butlast (tl val) else val)"

text \<open>One iteration of the loop over the lines: the dictionary \<open>found\<close> after the line.\<close>

definition read_line :: "(string \<rightharpoonup> string) \<Rightarrow> string \<Rightarrow> (string \<rightharpoonup> string)" where
  "read_line found raw =
     (let line = strip raw in
      if line = [] \<or> startswith line (CHR ''#'') then found
      else (case re_match line of
              None \<Rightarrow> found
            | Some (key, g2) \<Rightarrow>
                if key \<notin> set wanted then found
                else found(key \<mapsto> unquote (strip g2))))"

definition scan_lines :: "string \<Rightarrow> (string \<rightharpoonup> string)" where
  "scan_lines text = foldl read_line Map.empty (splitlines text)"

definition missing_keys :: "(string \<rightharpoonup> string) \<Rightarrow> string list" where
  "missing_keys found = filter (\<lambda>k. found k = None) wanted"

definition read_module_yaml_scalars :: "path \<Rightarrow> string \<Rightarrow> error + ModuleMeta" where
  "read_module_yaml_scalars p text =
     (let found = scan_lines text; missing = missing_keys found in
      if missing \<noteq> [] then Inl (MetadataIncomplete missing p)
      else Inr \<lparr> name = the (found ''name''), version = the (found ''version''),
                 tier = the (found ''tier''), responsibility = the (found ''responsibility'') \<rparr>)"

subsection \<open>The file system under a module directory\<close>

text \<open>
  What \<^verbatim>\<open>os.lstat\<close> reports of a file. Two names of one file (hard links) carry
  the same \<open>(st_ino, st_dev)\<close> and a link count above one.
\<close>

record stat =
  st_mode :: nat
  st_ino :: nat
  st_dev :: nat
  st_nlink :: nat
  st_uid :: nat
  st_gid :: nat
  st_mtime :: nat

text \<open>What a symbolic link resolves to, as far as the script can observe it.\<close>

datatype resolved = ToDirectory | ToFile bytes | Dangling

text \<open>
  The files that are neither regular files, directories nor symbolic links: pipes, sockets
  and the two kinds of device, a device with the numbers \<^verbatim>\<open>os.major\<close> and
  \<^verbatim>\<open>os.minor\<close> give for its \<^verbatim>\<open>st_rdev\<close>. \<open>reading\<close> is what \<^verbatim>\<open>open(..., "rb")\<close> of such
  a file does: it gives a stream with some bytes to read, it raises \<^verbatim>\<open>OSError\<close>, or (a
  pipe without a writer) it does not return.
\<close>

datatype special = Fifo | Socket | CharDevice nat nat | BlockDevice nat nat

datatype reading = Opens bytes | Refuses | Blocks

text \<open>
  A directory lists its entries in the order \<^verbatim>\<open>os.scandir\<close> yields them, which the
  file system chooses. A module directory that is reached through a symbolic link is given
  as the directory the link resolves to.
\<close>

datatype node =
    Regular stat bytes
  | Directory "(string \<times> node) list"
  | Symlink string resolved
  | Special special stat reading

text \<open>\<^verbatim>\<open>os.lstat\<close> of a path below the module directory: the last component is not
  followed, and every component before it is a directory of the tree.\<close>

fun lookup :: "node \<Rightarrow> path \<Rightarrow> node option" where
  "lookup t [] = Some t"
| "lookup (Directory es) (c # cs) =
     (case map_of es c of None \<Rightarrow> None | Some child \<Rightarrow> lookup child cs)"
| "lookup (Regular st b) (c # cs) = None"
| "lookup (Symlink l r) (c # cs) = None"
| "lookup (Special k st rd) (c # cs) = None"

definition is_symlink :: "node \<Rightarrow> path \<Rightarrow> bool" where
  "is_symlink t p = (case lookup t p of Some (Symlink l r) \<Rightarrow> True | _ \<Rightarrow> False)"

text \<open>\<^verbatim>\<open>DirEntry.is_dir()\<close> follows a symbolic link, so \<^verbatim>\<open>os.walk\<close> lists a link to a
  directory among \<open>dirs\<close> and every other link among \<open>files\<close>, with the pipes, sockets
  and devices.\<close>

fun is_dir :: "node \<Rightarrow> bool" where
  "is_dir (Regular st b) = False"
| "is_dir (Directory es) = True"
| "is_dir (Symlink l r) = (r = ToDirectory)"
| "is_dir (Special k st rd) = False"

definition dirs_of :: "(string \<times> node) list \<Rightarrow> string list" where
  "dirs_of es = map fst (filter (\<lambda>e. is_dir (snd e)) es)"

definition nondirs_of :: "(string \<times> node) list \<Rightarrow> string list" where
  "nondirs_of es = map fst (filter (\<lambda>e. \<not> is_dir (snd e)) es)"

text \<open>
  \<^verbatim>\<open>os.walk(module_dir, followlinks=False)\<close>, top down: the triple of a directory, then
  the walks of its subdirectories in listing order; a linked directory is listed in
  \<open>dirs\<close> but not entered. The walk only reads, so the generator is its list of triples.
  Of a root that is not a directory the walk is empty: the error of \<^verbatim>\<open>scandir\<close> is
  swallowed.
\<close>

fun os_walk :: "path \<Rightarrow> node \<Rightarrow> (path \<times> string list \<times> string list) list"
  and walk_into :: "path \<Rightarrow> (string \<times> node) list \<Rightarrow> (path \<times> string list \<times> string list) list"
where
  "os_walk here (Directory es) = (here, dirs_of es, nondirs_of es) # walk_into here es"
| "os_walk here (Regular st b) = []"
| "os_walk here (Symlink l r) = []"
| "os_walk here (Special k st rd) = []"
| "walk_into here [] = []"
| "walk_into here ((n, c) # es) =
     (case c of Directory sub \<Rightarrow> os_walk (here @ [n]) c | _ \<Rightarrow> []) @ walk_into here es"

subsection \<open>list\_files\<close>

text \<open>The loop over \<open>dirs\<close>: the first linked directory raises.\<close>

fun check_dirs :: "path \<Rightarrow> node \<Rightarrow> path \<Rightarrow> string list \<Rightarrow> error + unit" where
  "check_dirs module_dir t root [] = Inr ()"
| "check_dirs module_dir t root (d # ds) =
     (if is_symlink t (root @ [d])
      then Inl (SymlinkRejected SymlinkedDirectory (module_dir @ root @ [d]))
      else check_dirs module_dir t root ds)"

text \<open>The loop over \<open>files\<close>: \<^verbatim>\<open>.DS_Store\<close> is skipped before the link test.\<close>

fun scan_files :: "path \<Rightarrow> node \<Rightarrow> path \<Rightarrow> string list \<Rightarrow> string list \<Rightarrow> error + string list" where
  "scan_files module_dir t root [] out = Inr out"
| "scan_files module_dir t root (f # fs) out =
     (if f = ''.DS_Store'' then scan_files module_dir t root fs out
      else if is_symlink t (root @ [f])
      then Inl (SymlinkRejected SymlinkedFile (module_dir @ root @ [f]))
      else scan_files module_dir t root fs (out @ [as_posix (root @ [f])]))"

fun walk_loop :: "path \<Rightarrow> node \<Rightarrow> (path \<times> string list \<times> string list) list \<Rightarrow> string list
                  \<Rightarrow> error + string list" where
  "walk_loop module_dir t [] out = Inr out"
| "walk_loop module_dir t ((root, dirs, files) # rest) out =
     (case check_dirs module_dir t root dirs of
        Inl e \<Rightarrow> Inl e
      | Inr u \<Rightarrow>
          (case scan_files module_dir t root files out of
             Inl e \<Rightarrow> Inl e
           | Inr out' \<Rightarrow> walk_loop module_dir t rest out'))"

text \<open>\<open>module_dir\<close> is the path of the module directory, \<open>t\<close> what the file system holds there.\<close>

definition list_files :: "path \<Rightarrow> node \<Rightarrow> error + string list" where
  "list_files module_dir t =
     (case walk_loop module_dir t (os_walk [] t) [] of
        Inl e \<Rightarrow> Inl e
      | Inr out \<Rightarrow> Inr (sort out))"

subsection \<open>The archive, as tarfile and gzip are asked to write it\<close>

datatype tartype = REGTYPE | LNKTYPE | SYMTYPE | DIRTYPE | FIFOTYPE | CHRTYPE | BLKTYPE

record TarInfo =
  ti_name :: string
  ti_mode :: nat
  ti_uid :: nat
  ti_gid :: nat
  ti_size :: nat
  ti_mtime :: nat
  ti_type :: tartype
  ti_linkname :: string
  ti_uname :: string
  ti_gname :: string
  ti_devmajor :: nat
  ti_devminor :: nat

text \<open>
  An archive file: the time stamp given to \<^verbatim>\<open>gzip.GzipFile\<close>, the members added to the
  tar stream in order, each with the bytes copied for it, and whether the stream was
  closed with its end marker (it is not when the loop raises).
\<close>

record archive =
  gz_mtime :: nat
  members :: "(TarInfo \<times> bytes) list"
  finished :: bool

text \<open>The state of the open \<^verbatim>\<open>TarFile\<close>: the names under which inodes were archived, and
  the members written so far.\<close>

record tarfile =
  inodes :: "(nat \<times> nat) \<rightharpoonup> string"
  added :: "(TarInfo \<times> bytes) list"

text \<open>
  What the script takes from its surroundings. \<open>now_iso\<close> is the clock read by
  \<^verbatim>\<open>now_iso()\<close>; \<open>mkdir_ok\<close> and \<open>writable\<close> say whether the output directory can be
  made and a file of a given name opened in it; \<open>getpwuid\<close> and \<open>getgrgid\<close> are the
  system's user and group names; \<open>encode\<close> is the byte sequence tarfile and gzip produce
  for an archive written to a file of a given name; \<open>sha_new\<close>, \<open>sha_update\<close> and
  \<open>sha_hexdigest\<close> are \<^verbatim>\<open>hashlib.sha256\<close> with a hash object of type \<open>'h\<close>.
\<close>

record 'h env =
  now_iso :: string
  mkdir_ok :: bool
  writable :: "string \<Rightarrow> bool"
  getpwuid :: "nat \<Rightarrow> string"
  getgrgid :: "nat \<Rightarrow> string"
  encode :: "string \<Rightarrow> archive \<Rightarrow> bytes"
  sha_new :: 'h
  sha_update :: "'h \<Rightarrow> bytes \<Rightarrow> 'h"
  sha_hexdigest :: "'h \<Rightarrow> string"

text \<open>\<^verbatim>\<open>module_dir / rel\<close> for a relative \<open>rel\<close>: pathlib splits at slashes and drops
  empty components and single dots.\<close>

fun split_slash :: "string \<Rightarrow> string list" where
  "split_slash [] = [[]]"
| "split_slash (c # cs) =
     (if c = CHR ''/'' then [] # split_slash cs
      else (case split_slash cs of [] \<Rightarrow> [[c]] | w # ws \<Rightarrow> (c # w) # ws))"

definition path_parts :: "string \<Rightarrow> path" where
  "path_parts s = filter (\<lambda>c. c \<noteq> [] \<and> c \<noteq> ''.'') (split_slash s)"

definition mk_tarinfo :: "'h env \<Rightarrow> string \<Rightarrow> stat \<Rightarrow> nat \<Rightarrow> tartype \<Rightarrow> string \<Rightarrow> TarInfo" where
  "mk_tarinfo env arcname st sz ty linkname =
     \<lparr> ti_name = arcname, ti_mode = st_mode st, ti_uid = st_uid st, ti_gid = st_gid st,
       ti_size = sz, ti_mtime = st_mtime st, ti_type = ty, ti_linkname = linkname,
       ti_uname = getpwuid env (st_uid st), ti_gname = getgrgid env (st_gid st),
       ti_devmajor = 0, ti_devminor = 0 \<rparr>"

text \<open>The \<open>lstat\<close> fields of a directory or of a link never reach an archive: the script
  raises for either before it adds the member. They are left at zero.\<close>

definition no_stat :: stat where
  "no_stat = \<lparr> st_mode = 0, st_ino = 0, st_dev = 0, st_nlink = 0, st_uid = 0, st_gid = 0,
               st_mtime = 0 \<rparr>"

text \<open>
  \<^verbatim>\<open>TarFile.gettarinfo(str(src), arcname=arcname)\<close>: leading slashes of the archive name
  are stripped; a regular file whose inode was archived before under another name, and
  whose link count is above one, becomes a hard link member (\<open>LNKTYPE\<close>), any other
  regular file a \<open>REGTYPE\<close> member whose inode is remembered. A pipe and a device become
  members of size zero, a device with its numbers; for a socket the result is \<^verbatim>\<open>None\<close>.
\<close>

definition gettarinfo ::
  "'h env \<Rightarrow> node \<Rightarrow> path \<Rightarrow> string \<Rightarrow> ((nat \<times> nat) \<rightharpoonup> string)
     \<Rightarrow> error + (TarInfo option \<times> ((nat \<times> nat) \<rightharpoonup> string))" where
  "gettarinfo env t src arcname0 ino =
     (let arcname = dropWhile (\<lambda>c. c = CHR ''/'') arcname0 in
      case lookup t src of
        None \<Rightarrow> Inl (IOFailure src)
      | Some (Regular st b) \<Rightarrow>
          (let inode = (st_ino st, st_dev st) in
           if 1 < st_nlink st \<and> ino inode \<noteq> None \<and> ino inode \<noteq> Some arcname
           then Inr (Some (mk_tarinfo env arcname st 0 LNKTYPE (the (ino inode))), ino)
           else Inr (Some (mk_tarinfo env arcname st (length b) REGTYPE []),
                     if st_ino st \<noteq> 0 then ino(inode \<mapsto> arcname) else ino))
      | Some (Directory es) \<Rightarrow> Inr (Some (mk_tarinfo env arcname no_stat 0 DIRTYPE []), ino)
      | Some (Symlink l r) \<Rightarrow> Inr (Some (mk_tarinfo env arcname no_stat 0 SYMTYPE l), ino)
      | Some (Special Fifo st rd) \<Rightarrow> Inr (Some (mk_tarinfo env arcname st 0 FIFOTYPE []), ino)
      | Some (Special Socket st rd) \<Rightarrow> Inr (None, ino)
      | Some (Special (CharDevice major minor) st rd) \<Rightarrow>
          Inr (Some ((mk_tarinfo env arcname st 0 CHRTYPE [])
                       \<lparr> ti_devmajor := major, ti_devminor := minor \<rparr>), ino)
      | Some (Special (BlockDevice major minor) st rd) \<Rightarrow>
          Inr (Some ((mk_tarinfo env arcname st 0 BLKTYPE [])
                       \<lparr> ti_devmajor := major, ti_devminor := minor \<rparr>), ino))"

definition issym :: "TarInfo \<Rightarrow> bool" where
  "issym ti = (ti_type ti = SYMTYPE)"

definition islnk :: "TarInfo \<Rightarrow> bool" where
  "islnk ti = (ti_type ti = LNKTYPE)"

text \<open>\<^verbatim>\<open>src.open("rb")\<close>, with the bytes the stream gives when read to the end.\<close>

definition open_rb :: "node \<Rightarrow> path \<Rightarrow> error + bytes" where
  "open_rb t src =
     (case lookup t src of
        Some (Regular st b) \<Rightarrow> Inr b
      | Some (Symlink l (ToFile b)) \<Rightarrow> Inr b
      | Some (Special k st (Opens b)) \<Rightarrow> Inr b
      | Some (Special k st Blocks) \<Rightarrow> Inl (NeverReturns src)
      | _ \<Rightarrow> Inl (IOFailure src))"

text \<open>\<^verbatim>\<open>tf.addfile(ti, fileobj=f)\<close> copies \<open>ti.size\<close> bytes after the header.\<close>

definition addfile :: "tarfile \<Rightarrow> TarInfo \<Rightarrow> bytes \<Rightarrow> tarfile" where
  "addfile tf ti content = tf \<lparr> added := added tf @ [(ti, take (ti_size ti) content)] \<rparr>"

text \<open>The loop \<^verbatim>\<open>for rel in file_list\<close> of \<open>build_tarball\<close>, with the tar file it leaves.
  When \<^verbatim>\<open>gettarinfo\<close> gave \<^verbatim>\<open>None\<close>, the assignment \<^verbatim>\<open>ti.uid = 0\<close> raises
  \<^verbatim>\<open>AttributeError\<close>.\<close>

fun add_files :: "'h env \<Rightarrow> path \<Rightarrow> node \<Rightarrow> string \<Rightarrow> string list \<Rightarrow> tarfile
                  \<Rightarrow> tarfile \<times> (error + unit)" where
  "add_files env module_dir t module_name [] tf = (tf, Inr ())"
| "add_files env module_dir t module_name (rel # rels) tf =
     (let src = path_parts rel; arcname = module_name @ ''/'' @ rel in
      case gettarinfo env t src arcname (inodes tf) of
        Inl e \<Rightarrow> (tf, Inl e)
      | Inr (None, ino) \<Rightarrow> (tf, Inl AttributeError)
      | Inr (Some ti0, ino) \<Rightarrow>
          (let ti = ti0 \<lparr> ti_uid := 0, ti_gid := 0, ti_uname := ''root'', ti_gname := ''root'',
                          ti_mtime := 0 \<rparr>;
               tf1 = tf \<lparr> inodes := ino \<rparr> in
           if issym ti \<or> islnk ti
           then (tf1, Inl (SymlinkRejected SymlinkOrHardlink (module_dir @ src)))
           else (case open_rb t src of
                   Inl e \<Rightarrow> (tf1, Inl e)
                 | Inr content \<Rightarrow>
                     add_files env module_dir t module_name rels (addfile tf1 ti content))))"

definition out_name :: "string \<Rightarrow> string \<Rightarrow> string" where
  "out_name module_name module_version = module_name @ ''-'' @ module_version @ ''.tar.gz''"

text \<open>
  \<open>build_tarball\<close>. The output directory is a log of the files written into it, latest
  last; the function returns the log with what it wrote, and the name of the archive
  file or the error raised. The file list is taken before the archive file is opened.
\<close>

definition build_tarball ::
  "'h env \<Rightarrow> (string \<times> archive) list \<Rightarrow> path \<Rightarrow> node \<Rightarrow> string \<Rightarrow> string
     \<Rightarrow> (string \<times> archive) list \<times> (error + string)" where
  "build_tarball env disk module_dir t module_name module_version =
     (let out_path = out_name module_name module_version in
      if \<not> mkdir_ok env then (disk, Inl (IOFailure []))
      else (case list_files module_dir t of
              Inl e \<Rightarrow> (disk, Inl e)
            | Inr file_list \<Rightarrow>
                if \<not> writable env out_path then (disk, Inl (IOFailure [out_path]))
                else (case add_files env module_dir t module_name file_list
                             \<lparr> inodes = Map.empty, added = [] \<rparr> of
                        (tf, Inl e) \<Rightarrow>
                          (disk @ [(out_path, \<lparr> gz_mtime = 0, members = added tf, finished = False \<rparr>)],
                           Inl e)
                      | (tf, Inr u) \<Rightarrow>
                          (disk @ [(out_path, \<lparr> gz_mtime = 0, members = added tf, finished = True \<rparr>)],
                           Inr out_path))))"

subsection \<open>sha256\_file\<close>

text \<open>\<^verbatim>\<open>for chunk in iter(lambda: f.read(1024 * 1024), b"")\<close>: the loop ends at the first
  empty read.\<close>

function update_chunks :: "'h env \<Rightarrow> 'h \<Rightarrow> bytes \<Rightarrow> 'h" where
  "update_chunks env h rest =
     (let chunk = take (1024 * 1024) rest in
      if chunk = [] then h
      else update_chunks env (sha_update env h chunk) (drop (1024 * 1024) rest))"
  by pat_completeness auto
termination
  by (relation "measure (\<lambda>(env, h, rest). length rest)") auto

declare update_chunks.simps [simp del]

definition sha256_file :: "'h env \<Rightarrow> bytes \<Rightarrow> string" where
  "sha256_file env content = sha_hexdigest env (update_chunks env (sha_new env) content)"

subsection \<open>The legacy index and the registry entries\<close>

text \<open>A value of \<^verbatim>\<open>json.loads\<close>; an object keeps its keys in order, each once.\<close>

datatype json =
    JNull
  | JBool bool
  | JNumber int
  | JString string
  | JArray "json list"
  | JObject "(string \<times> json) list"

text \<open>Python's truth value of a loaded JSON value, as \<^verbatim>\<open>or\<close> tests it.\<close>

fun truthy :: "json \<Rightarrow> bool" where
  "truthy JNull = False"
| "truthy (JBool b) = b"
| "truthy (JNumber n) = (n \<noteq> 0)"
| "truthy (JString s) = (s \<noteq> [])"
| "truthy (JArray xs) = (xs \<noteq> [])"
| "truthy (JObject kvs) = (kvs \<noteq> [])"

definition py_or :: "json \<Rightarrow> json \<Rightarrow> json" where
  "py_or a b = (if truthy a then a else b)"

text \<open>\<^verbatim>\<open>d.get(key, default)\<close>: only a dictionary has the method.\<close>

fun py_get :: "json \<Rightarrow> string \<Rightarrow> json \<Rightarrow> error + json" where
  "py_get (JObject kvs) key dflt = Inr (case map_of kvs key of None \<Rightarrow> dflt | Some v \<Rightarrow> v)"
| "py_get j key dflt = Inl AttributeError"

record args =
  tag :: string
  namespace :: string
  runtime_min :: string
  repository :: string
  homepage :: string
  license :: string
  timestamp :: string
  only :: "string list"

record entry_identity =
  id_name :: string
  id_namespace :: string
  id_version :: string
  id_spec_version :: string

record entry_metadata =
  md_description :: json
  md_description_zh :: json
  md_author :: json
  md_tier :: string
  md_license :: string
  md_repository :: string
  md_homepage :: string
  md_keywords :: json

record entry_dependencies =
  dep_runtime_min :: string
  dep_modules :: "string list"

record entry_distribution =
  tarball :: string
  checksum :: string
  size_bytes :: nat
  files :: "string list"

record entry_timestamps =
  created_at :: string
  updated_at :: string
  deprecated_at :: "string option"

record entry =
  e_schema :: string
  e_identity :: entry_identity
  e_metadata :: entry_metadata
  e_dependencies :: entry_dependencies
  e_distribution :: entry_distribution
  e_timestamps :: entry_timestamps

record registry_stats =
  total_modules :: nat
  total_downloads :: nat
  last_updated :: string

record registry =
  r_schema :: string
  r_version :: string
  updated :: string
  modules :: "(string \<times> entry) list"
  categories :: json
  featured :: "string list"
  stats :: registry_stats

text \<open>\<^verbatim>\<open>entries[key] = v\<close> on an insertion-ordered dictionary: an existing key keeps its
  place and takes the new value, a new key goes last.\<close>

fun dict_set :: "string \<Rightarrow> 'v \<Rightarrow> (string \<times> 'v) list \<Rightarrow> (string \<times> 'v) list" where
  "dict_set k v [] = [(k, v)]"
| "dict_set k v ((k', v') # kvs) =
     (if k' = k then (k, v) # kvs else (k', v') # dict_set k v kvs)"

text \<open>The three merged fields, in the order the script evaluates them.\<close>

definition merge_metadata :: "json \<Rightarrow> ModuleMeta \<Rightarrow> error + (json \<times> json \<times> json)" where
  "merge_metadata v1_info meta =
     (case py_get v1_info ''description'' JNull of
        Inl e \<Rightarrow> Inl e
      | Inr d \<Rightarrow>
          (case py_get v1_info ''author'' JNull of
             Inl e \<Rightarrow> Inl e
           | Inr a \<Rightarrow>
               (case py_get v1_info ''tags'' JNull of
                  Inl e \<Rightarrow> Inl e
                | Inr k \<Rightarrow>
                    Inr (py_or d (JString (responsibility meta)),
                         py_or a (JString ''unknown''),
                         py_or k (JArray [])))))"

text \<open>\<^verbatim>\<open>tar_path.name\<close>: the last component of the archive's path.\<close>

definition basename :: "string \<Rightarrow> string" where
  "basename s = last (split_slash s)"

definition assemble_entry ::
  "args \<Rightarrow> string \<Rightarrow> ModuleMeta \<Rightarrow> json \<Rightarrow> json \<Rightarrow> json \<Rightarrow> string \<Rightarrow> string \<Rightarrow> nat \<Rightarrow> string list
     \<Rightarrow> entry" where
  "assemble_entry a ts meta description_zh' author' keywords' tar_path digest sz file_list =
     \<lparr> e_schema = ''https://cognitive-modules.dev/schema/registry-entry-v1.json'',
       e_identity = \<lparr> id_name = name meta, id_namespace = namespace a,
                      id_version = version meta, id_spec_version = ''2.2'' \<rparr>,
       e_metadata = \<lparr> md_description = description_zh', md_description_zh = description_zh',
                      md_author = author', md_tier = tier meta, md_license = license a,
                      md_repository = repository a, md_homepage = homepage a,
                      md_keywords = keywords' \<rparr>,
       e_dependencies = \<lparr> dep_runtime_min = runtime_min a, dep_modules = [] \<rparr>,
       e_distribution =
         \<lparr> tarball = ''https://github.com/Cognary/cognitive/releases/download/'' @ tag a
                       @ ''/'' @ basename tar_path,
           checksum = ''sha256:'' @ digest, size_bytes = sz, files = file_list \<rparr>,
       e_timestamps = \<lparr> created_at = ts, updated_at = ts, deprecated_at = None \<rparr> \<rparr>"

subsection \<open>main\<close>

record run_state =
  entries :: "(string \<times> entry) list"
  written :: "(string \<times> archive) list"

text \<open>The bytes of a file of the output directory: what was written to it last.\<close>

definition read_back :: "'h env \<Rightarrow> (string \<times> archive) list \<Rightarrow> string \<Rightarrow> error + bytes" where
  "read_back env disk fname =
     (case map_of (rev disk) fname of
        None \<Rightarrow> Inl (IOFailure [fname])
      | Some a \<Rightarrow> Inr (encode env fname a))"

text \<open>\<^verbatim>\<open>module_yaml.read_text()\<close> for the descriptor of a module directory; a link to a
  file is followed, and a pipe or a device is read like a file.\<close>

definition read_text :: "path \<Rightarrow> node \<Rightarrow> error + string" where
  "read_text p mod_dir =
     (case lookup mod_dir [''module.yaml''] of
        Some (Regular st b) \<Rightarrow> Inr b
      | Some (Symlink l (ToFile b)) \<Rightarrow> Inr b
      | Some (Special k st (Opens b)) \<Rightarrow> Inr b
      | Some (Special k st Blocks) \<Rightarrow> Inl (NeverReturns p)
      | _ \<Rightarrow> Inl (IOFailure p))"

text \<open>
  One iteration of the loop over the descriptors found: \<open>dname\<close> is the name of the module
  directory and \<open>mod_dir\<close> its content.
\<close>

definition process_module ::
  "'h env \<Rightarrow> args \<Rightarrow> json \<Rightarrow> string list \<Rightarrow> string \<Rightarrow> run_state \<Rightarrow> string \<times> node
     \<Rightarrow> run_state \<times> (error + unit)" where
  "process_module env a v1_modules only' ts st m =
     (let dname = fst m; mod_dir = snd m; module_yaml = [dname, ''module.yaml''] in
      case read_text module_yaml mod_dir of
        Inl e \<Rightarrow> (st, Inl e)
      | Inr text \<Rightarrow>
      (case read_module_yaml_scalars module_yaml text of
        Inl e \<Rightarrow> (st, Inl e)
      | Inr meta \<Rightarrow>
          if only' \<noteq> [] \<and> name meta \<notin> set only' then (st, Inr ())
          else
      (case py_get v1_modules (name meta) (JObject []) of
        Inl e \<Rightarrow> (st, Inl e)
      | Inr v1_info \<Rightarrow>
      (case merge_metadata v1_info meta of
        Inl e \<Rightarrow> (st, Inl e)
      | Inr (description_zh', author', keywords') \<Rightarrow>
      (case build_tarball env (written st) [dname] mod_dir (name meta) (version meta) of
        (disk, Inl e) \<Rightarrow> (st \<lparr> written := disk \<rparr>, Inl e)
      | (disk, Inr tar_path) \<Rightarrow>
      (case read_back env disk tar_path of
        Inl e \<Rightarrow> (st \<lparr> written := disk \<rparr>, Inl e)
      | Inr content \<Rightarrow>
      (case list_files [dname] mod_dir of
        Inl e \<Rightarrow> (st \<lparr> written := disk \<rparr>, Inl e)
      | Inr file_list \<Rightarrow>
          (st \<lparr> written := disk,
                entries := dict_set (name meta)
                  (assemble_entry a ts meta description_zh' author' keywords' tar_path
                     (sha256_file env content) (length content) file_list)
                  (entries st) \<rparr>,
           Inr ()))))))))"

fun run_modules ::
  "'h env \<Rightarrow> args \<Rightarrow> json \<Rightarrow> string list \<Rightarrow> string \<Rightarrow> (string \<times> node) list \<Rightarrow> run_state
     \<Rightarrow> run_state \<times> (error + unit)" where
  "run_modules env a v1_modules only' ts [] st = (st, Inr ())"
| "run_modules env a v1_modules only' ts (m # ms) st =
     (case process_module env a v1_modules only' ts st m of
        (st', Inl e) \<Rightarrow> (st', Inl e)
      | (st', Inr u) \<Rightarrow> run_modules env a v1_modules only' ts ms st')"

definition make_registry :: "string \<Rightarrow> json \<Rightarrow> (string \<times> entry) list \<Rightarrow> registry" where
  "make_registry ts cats es =
     \<lparr> r_schema = ''https://cognitive-modules.dev/schema/registry-v2.json'',
       r_version = ''2.0.0'', updated = ts, modules = es, categories = cats,
       featured = map fst es,
       stats = \<lparr> total_modules = length es, total_downloads = 0, last_updated = ts \<rparr> \<rparr>"

text \<open>
  \<open>main\<close>. \<open>v1\<close> is the loaded legacy index; \<open>globbed\<close> holds, in the order the file
  system gave them, the module directories that \<^verbatim>\<open>glob("*/module.yaml")\<close> matched, each
  with its name and content (the content of the directory a link resolves to, when the
  module directory is itself a symbolic link). The result is the log of archive files written and either
  the error that ended the run or the registry written as the index.
\<close>

definition main ::
  "'h env \<Rightarrow> args \<Rightarrow> json \<Rightarrow> (string \<times> node) list
     \<Rightarrow> (string \<times> archive) list \<times> (error + registry)" where
  "main env a v1 globbed =
     (case py_get v1 ''modules'' (JObject []) of
        Inl e \<Rightarrow> ([], Inl e)
      | Inr v1_modules \<Rightarrow>
          (let only' = filter (\<lambda>x. x \<noteq> []) (map strip (only a));
               ts = (if strip (timestamp a) \<noteq> [] then strip (timestamp a) else now_iso env) in
           case run_modules env a v1_modules only' ts (sort_key fst globbed)
                  \<lparr> entries = [], written = [] \<rparr> of
             (st, Inl e) \<Rightarrow> (written st, Inl e)
           | (st, Inr u) \<Rightarrow>
               (case py_get v1 ''categories'' (JObject []) of
                  Inl e \<Rightarrow> (written st, Inl e)
                | Inr cats \<Rightarrow> (written st, Inr (make_registry ts cats (entries st))))))"

definition line_gives :: "string \<Rightarrow> (string \<times> string) option" where
  "line_gives raw =
     (let line = strip raw in
      if line = [] \<or> startswith line (CHR ''#'') then None
      else (case re_match line of
              None \<Rightarrow> None
            | Some (key, g2) \<Rightarrow>
                if key \<in> set wanted then Some (key, unquote (strip g2)) else None))"

definition assignments :: "string \<Rightarrow> (string \<times> string) list" where
  "assignments text = List.map_filter line_gives (splitlines text)"

definition key_given :: "string \<Rightarrow> string \<Rightarrow> bool" where
  "key_given k text = (k \<in> fst ` set (assignments text))"

definition module_alone ::
  "'h env \<Rightarrow> args \<Rightarrow> json \<Rightarrow> string list \<Rightarrow> string \<Rightarrow> string \<times> node \<Rightarrow> run_state \<times> (error + unit)" where
  "module_alone env a v1_modules only' ts m =
     process_module env a v1_modules only' ts \<lparr> entries = [], written = [] \<rparr> m"

definition set_all :: "(string \<times> 'v) list \<Rightarrow> (string \<times> 'v) list \<Rightarrow> (string \<times> 'v) list" where
  "set_all new kvs = foldl (\<lambda>acc kv. dict_set (fst kv) (snd kv) acc) kvs new"

definition tarball_alone ::
  "'h env \<Rightarrow> path \<Rightarrow> node \<Rightarrow> string \<Rightarrow> string \<Rightarrow> (string \<times> archive) list \<times> (error + string)" where
  "tarball_alone env md t n v = build_tarball env [] md t n v"

definition valid_name :: "string \<Rightarrow> bool" where
  "valid_name n = (n \<noteq> [] \<and> CHR ''/'' \<notin> set n \<and> n \<noteq> ''.'' \<and> n \<noteq> ''..'')"

fun wf_node :: "node \<Rightarrow> bool" and wf_entries :: "(string \<times> node) list \<Rightarrow> bool" where
  "wf_node (Regular st b) = True"
| "wf_node (Symlink l r) = True"
| "wf_node (Special k st rd) = True"
| "wf_node (Directory es) = (distinct (map fst es) \<and> wf_entries es)"
| "wf_entries [] = True"
| "wf_entries ((n, c) # es) = (valid_name n \<and> wf_node c \<and> wf_entries es)"

text \<open>The entries below a module directory that are not directories, each with its path
  relative to the module directory: regular files, symbolic links, pipes, sockets, devices.\<close>

fun leaves :: "path \<Rightarrow> node \<Rightarrow> (path \<times> node) list"
  and leaves_in :: "path \<Rightarrow> (string \<times> node) list \<Rightarrow> (path \<times> node) list" where
  "leaves p (Directory es) = leaves_in p es"
| "leaves p (Regular st b) = [(p, Regular st b)]"
| "leaves p (Symlink l r) = [(p, Symlink l r)]"
| "leaves p (Special k st rd) = [(p, Special k st rd)]"
| "leaves_in p [] = []"
| "leaves_in p ((n, c) # es) = leaves (p @ [n]) c @ leaves_in p es"

fun is_regular :: "node \<Rightarrow> bool" where
  "is_regular (Regular st b) = True"
| "is_regular c = False"

fun is_link :: "node \<Rightarrow> bool" where
  "is_link (Symlink l r) = True"
| "is_link c = False"

text \<open>The links \<open>list_files\<close> refuses: a link to a directory, and a link to anything else
  unless its name is \<^verbatim>\<open>.DS_Store\<close>.\<close>

definition rejected :: "path \<times> node \<Rightarrow> bool" where
  "rejected pc = (is_link (snd pc) \<and> (is_dir (snd pc) \<or> last (fst pc) \<noteq> ''.DS_Store''))"

text \<open>The entries \<open>list_files\<close> puts into the manifest: every entry that is neither a
  directory nor a symbolic link and is not named \<^verbatim>\<open>.DS_Store\<close>, a regular file or not.
  \<open>regular_only\<close> says that all of them are regular files.\<close>

fun is_special :: "node \<Rightarrow> bool" where
  "is_special (Special k st rd) = True"
| "is_special c = False"

definition packaged :: "path \<times> node \<Rightarrow> bool" where
  "packaged pc = ((is_regular (snd pc) \<or> is_special (snd pc)) \<and> last (fst pc) \<noteq> ''.DS_Store'')"

definition hyp_lookup :: "node \<Rightarrow> path \<Rightarrow> (string \<times> node) list \<Rightarrow> bool" where
  "hyp_lookup t r es = (\<forall>(n, c)\<in>set es. lookup t (r @ [n]) = Some c)"

definition file_link :: "string \<times> node \<Rightarrow> bool" where
  "file_link e = (is_link (snd e) \<and> \<not> is_dir (snd e) \<and> fst e \<noteq> ''.DS_Store'')"

definition regular_only :: "node \<Rightarrow> bool" where
  "regular_only t = (\<forall>pc\<in>set (leaves [] t). packaged pc \<longrightarrow> is_regular (snd pc))"

fun imm_leaves :: "path \<Rightarrow> (string \<times> node) list \<Rightarrow> (path \<times> node) list" where
  "imm_leaves r [] = []"
| "imm_leaves r ((n, c) # es) =
     (case c of Directory sub \<Rightarrow> [] | _ \<Rightarrow> [(r @ [n], c)]) @ imm_leaves r es"

fun sub_leaves :: "path \<Rightarrow> (string \<times> node) list \<Rightarrow> (path \<times> node) list" where
  "sub_leaves r [] = []"
| "sub_leaves r ((n, c) # es) =
     (case c of Directory sub \<Rightarrow> leaves_in (r @ [n]) sub | _ \<Rightarrow> []) @ sub_leaves r es"

definition kept :: "(path \<times> node) list \<Rightarrow> string list" where
  "kept xs = map (\<lambda>pc. as_posix (fst pc)) (filter packaged xs)"

definition walk_spec :: "path \<Rightarrow> node \<Rightarrow> path \<Rightarrow> (string \<times> node) list \<Rightarrow> bool" where
  "walk_spec md t r es =
     (\<forall>out.
        ((\<forall>pc\<in>set (leaves_in r es). \<not> rejected pc) \<longrightarrow>
           (\<exists>out'. walk_loop md t (os_walk r (Directory es)) out = Inr out'
                  \<and> mset out' = mset out + mset (kept (leaves_in r es))))
      \<and> ((\<exists>pc\<in>set (leaves_in r es). rejected pc) \<longrightarrow>
           (\<exists>k p c. walk_loop md t (os_walk r (Directory es)) out = Inl (SymlinkRejected k (md @ p))
                  \<and> (p, c) \<in> set (leaves_in r es) \<and> rejected (p, c))))"

definition arc :: "string \<Rightarrow> string \<Rightarrow> string" where
  "arc module_name rel = dropWhile (\<lambda>c. c = CHR ''/'') (module_name @ ''/'' @ rel)"

text \<open>The archive member of a regular file, of a pipe or device, and of the manifest path
  \<open>rel\<close> of a module directory, as a completed build writes it.\<close>

definition member :: "string \<Rightarrow> string \<Rightarrow> stat \<Rightarrow> bytes \<Rightarrow> TarInfo \<times> bytes" where
  "member module_name rel st b =
     (\<lparr> ti_name = arc module_name rel, ti_mode = st_mode st, ti_uid = 0, ti_gid = 0,
        ti_size = length b, ti_mtime = 0, ti_type = REGTYPE, ti_linkname = [],
        ti_uname = ''root'', ti_gname = ''root'', ti_devmajor = 0, ti_devminor = 0 \<rparr>, b)"

fun special_type :: "special \<Rightarrow> tartype" where
  "special_type Fifo = FIFOTYPE"
| "special_type (CharDevice major minor) = CHRTYPE"
| "special_type (BlockDevice major minor) = BLKTYPE"
| "special_type Socket = REGTYPE"

fun device_numbers :: "special \<Rightarrow> nat \<times> nat" where
  "device_numbers (CharDevice major minor) = (major, minor)"
| "device_numbers (BlockDevice major minor) = (major, minor)"
| "device_numbers k = (0, 0)"

definition special_member :: "string \<Rightarrow> string \<Rightarrow> special \<Rightarrow> stat \<Rightarrow> TarInfo \<times> bytes" where
  "special_member module_name rel k st =
     (\<lparr> ti_name = arc module_name rel, ti_mode = st_mode st, ti_uid = 0, ti_gid = 0,
        ti_size = 0, ti_mtime = 0, ti_type = special_type k, ti_linkname = [],
        ti_uname = ''root'', ti_gname = ''root'',
        ti_devmajor = fst (device_numbers k), ti_devminor = snd (device_numbers k) \<rparr>, [])"

definition member_at :: "node \<Rightarrow> string \<Rightarrow> string \<Rightarrow> TarInfo \<times> bytes" where
  "member_at t module_name rel =
     (case lookup t (path_parts rel) of
        Some (Regular st b) \<Rightarrow> member module_name rel st b
      | Some (Special k st rd) \<Rightarrow> special_member module_name rel k st
      | _ \<Rightarrow> member module_name rel no_stat [])"


definition normalised :: "TarInfo \<Rightarrow> bool" where
  "normalised ti = (ti_uid ti = 0 \<and> ti_gid ti = 0 \<and> ti_uname ti = ''root'' \<and> ti_gname ti = ''root''
                    \<and> ti_mtime ti = 0)"

definition run_only :: "args \<Rightarrow> string list" where
  "run_only a = filter (\<lambda>x. x \<noteq> []) (map strip (only a))"

definition run_ts :: "'h env \<Rightarrow> args \<Rightarrow> string" where
  "run_ts env a = (if strip (timestamp a) \<noteq> [] then strip (timestamp a) else now_iso env)"

definition legacy_modules :: "json \<Rightarrow> json" where
  "legacy_modules v1 = (case py_get v1 ''modules'' (JObject []) of Inr v1m \<Rightarrow> v1m | Inl e \<Rightarrow> JNull)"

definition alone :: "'h env \<Rightarrow> args \<Rightarrow> json \<Rightarrow> string \<times> node \<Rightarrow> run_state \<times> (error + unit)" where
  "alone env a v1 m = module_alone env a (legacy_modules v1) (run_only a) (run_ts env a) m"

definition legacy_field :: "json \<Rightarrow> string \<Rightarrow> string \<Rightarrow> json" where
  "legacy_field v1_modules n key =
     (case v1_modules of
        JObject ms \<Rightarrow>
          (case map_of ms n of
             Some (JObject fs) \<Rightarrow> (case map_of fs key of Some v \<Rightarrow> v | None \<Rightarrow> JNull)
           | _ \<Rightarrow> JNull)
      | _ \<Rightarrow> JNull)"


text \<open>The sorted paths of the packaged entries.\<close>

definition manifest :: "node \<Rightarrow> string list" where
  "manifest t = sort (kept (leaves [] t))"

inductive reorder :: "node \<Rightarrow> node \<Rightarrow> bool" where
  reorder_file: "reorder (Regular st b) (Regular st b)"
| reorder_link: "reorder (Symlink l r) (Symlink l r)"
| reorder_special: "reorder (Special k st rd) (Special k st rd)"
| reorder_dir:
    "list_all2 (\<lambda>e e'. fst e = fst e' \<and> reorder (snd e) (snd e')) es es' \<Longrightarrow>
     mset es' = mset es'' \<Longrightarrow> reorder (Directory es) (Directory es'')"

text \<open>What of a packaged entry reaches the archive: its path, its type, mode bits and device
  numbers, and the bytes of a regular file. The payload of a module directory is the
  multiset of these, and \<open>packed\<close> the archive member made of one.\<close>

fun node_facts :: "node \<Rightarrow> (tartype \<times> nat \<times> nat \<times> nat) \<times> bytes" where
  "node_facts (Regular st b) = ((REGTYPE, st_mode st, 0, 0), b)"
| "node_facts (Special k st rd) = ((special_type k, st_mode st, device_numbers k), [])"
| "node_facts c = ((REGTYPE, 0, 0, 0), [])"

definition file_facts :: "path \<times> node \<Rightarrow> string \<times> (tartype \<times> nat \<times> nat \<times> nat) \<times> bytes" where
  "file_facts pc = (as_posix (fst pc), node_facts (snd pc))"

definition payload :: "node \<Rightarrow> (string \<times> (tartype \<times> nat \<times> nat \<times> nat) \<times> bytes) multiset" where
  "payload t = mset (map file_facts (filter packaged (leaves [] t)))"

definition packed ::
  "string \<Rightarrow> string \<times> (tartype \<times> nat \<times> nat \<times> nat) \<times> bytes \<Rightarrow> TarInfo \<times> bytes" where
  "packed module_name f =
     (case f of (rel, (ty, mode, major, minor), content) \<Rightarrow>
        (\<lparr> ti_name = arc module_name rel, ti_mode = mode, ti_uid = 0, ti_gid = 0,
           ti_size = length content, ti_mtime = 0, ti_type = ty, ti_linkname = [],
           ti_uname = ''root'', ti_gname = ''root'', ti_devmajor = major, ti_devminor = minor \<rparr>,
         content))"

definition ex_env :: "bytes env" where
  "ex_env = \<lparr> now_iso = ''2026-01-01T00:00:00Z'', mkdir_ok = True, writable = (\<lambda>f. True),
              getpwuid = (\<lambda>u. ''builder''), getgrgid = (\<lambda>g. ''staff''),
              encode = (\<lambda>f a. f @ concat (map snd (members a))),
              sha_new = [], sha_update = (\<lambda>h b. h @ b), sha_hexdigest = (\<lambda>h. h) \<rparr>"

definition ex_args :: args where
  "ex_args = \<lparr> tag = ''v2.2.7'', namespace = ''official'', runtime_min = ''2.2.0'',
               repository = ''https://github.com/Cognary/cognitive'',
               homepage = ''https://cognary.github.io/cognitive/'', license = ''MIT'',
               timestamp = [], only = [] \<rparr>"

definition ex_stat :: stat where
  "ex_stat = \<lparr> st_mode = 420, st_ino = 11, st_dev = 1, st_nlink = 1, st_uid = 1000,
               st_gid = 1000, st_mtime = 1700000000 \<rparr>"

definition ex_yaml :: "string \<Rightarrow> string" where
  "ex_yaml v = ''name: alpha'' @ [CHR 0x0A] @ ''version: '' @ v @ [CHR 0x0A]
               @ ''tier: exec'' @ [CHR 0x0A] @ ''responsibility: review code'' @ [CHR 0x0A]"

definition ex_mod :: "string \<Rightarrow> node" where
  "ex_mod v = Directory [(''prompt.md'', Regular ex_stat ''hello''),
                         (''module.yaml'', Regular ex_stat (ex_yaml v))]"

definition ex_info :: json where
  "ex_info = JObject [(''description'', JString ''Legacy text''), (''author'', JString []),
                      (''tags'', JArray [JString ''review''])]"

definition ex_legacy :: json where
  "ex_legacy = JObject [(''alpha'', ex_info)]"

definition ex_v1 :: json where
  "ex_v1 = JObject [(''modules'', ex_legacy), (''categories'', JObject [])]"

definition ex_meta :: "string \<Rightarrow> ModuleMeta" where
  "ex_meta v = \<lparr> name = ''alpha'', version = v, tier = ''exec'', responsibility = ''review code'' \<rparr>"

definition ex_archive :: "string \<Rightarrow> archive" where
  "ex_archive v = \<lparr> gz_mtime = 0,
       members = [member_at (ex_mod v) ''alpha'' ''module.yaml'', member_at (ex_mod v) ''alpha'' ''prompt.md''],
       finished = True \<rparr>"

definition ex_entry :: "string \<Rightarrow> entry" where
  "ex_entry v = assemble_entry ex_args ''2026-01-01T00:00:00Z'' (ex_meta v)
       (JString ''Legacy text'') (JString ''unknown'') (JArray [JString ''review''])
       (out_name ''alpha'' v)
       (sha256_file ex_env (encode ex_env (out_name ''alpha'' v) (ex_archive v)))
       (length (encode ex_env (out_name ''alpha'' v) (ex_archive v)))
       [''module.yaml'', ''prompt.md'']"

definition ex_globbed :: "(string \<times> node) list" where
  "ex_globbed = [(''a2'', ex_mod ''2.0''), (''a1'', ex_mod ''1.0'')]"

definition ex_disk :: "(string \<times> archive) list" where
  "ex_disk = [(out_name ''alpha'' ''1.0'', ex_archive ''1.0''),
              (out_name ''alpha'' ''2.0'', ex_archive ''2.0'')]"

definition ex_registry :: registry where
  "ex_registry = make_registry ''2026-01-01T00:00:00Z'' (JObject []) [(''alpha'', ex_entry ''2.0'')]"

definition ex_incomplete :: string where
  "ex_incomplete = ''# beta'' @ [CHR 0x0A] @ ''name: beta'' @ [CHR 0x0A] @ ''version: 0.1'' @ [CHR 0x0A]
                   @ ''responsibility: \"summarise\"'' @ [CHR 0x0A]"

definition ex_broken :: "(string \<times> node) list" where
  "ex_broken = [(''beta'', Directory [(''module.yaml'', Regular ex_stat ex_incomplete)])]"

definition nested_descriptor :: string where
  "nested_descriptor =
     ''name: alpha'' @ [CHR 0x0A] @ ''version: 1.0'' @ [CHR 0x0A] @ ''tier: exec'' @ [CHR 0x0A]
     @ ''responsibility: review code'' @ [CHR 0x0A] @ ''limits:'' @ [CHR 0x0A]
     @ ''  name: inner'' @ [CHR 0x0A]"

definition nested_tier_descriptor :: string where
  "nested_tier_descriptor =
     ''name: alpha'' @ [CHR 0x0A] @ ''version: 1.0'' @ [CHR 0x0A]
     @ ''responsibility: review code'' @ [CHR 0x0A] @ ''limits:'' @ [CHR 0x0A]
     @ ''  tier: deep'' @ [CHR 0x0A]"


definition top_level :: "string \<Rightarrow> string" where
  "top_level s = hd (split_slash s)"

definition entry_names :: "archive \<Rightarrow> string list" where
  "entry_names a = map (\<lambda>x. ti_name (fst x)) (members a)"

definition ex_yaml_unnamed :: string where
  "ex_yaml_unnamed = ''name: \"\"'' @ [CHR 0x0A] @ ''version: 1.0'' @ [CHR 0x0A]
               @ ''tier: exec'' @ [CHR 0x0A] @ ''responsibility: review code'' @ [CHR 0x0A]"


definition reaches_build :: "args \<Rightarrow> json \<Rightarrow> string \<times> node \<Rightarrow> bool" where
  "reaches_build a v1 m =
     (case read_text [fst m, ''module.yaml''] (snd m) of
        Inl e \<Rightarrow> False
      | Inr body \<Rightarrow>
          (case read_module_yaml_scalars [fst m, ''module.yaml''] body of
             Inl e \<Rightarrow> False
           | Inr meta \<Rightarrow>
               (run_only a = [] \<or> name meta \<in> set (run_only a))
               \<and> (case py_get (legacy_modules v1) (name meta) (JObject []) of
                     Inl e \<Rightarrow> False
                   | Inr v1_info \<Rightarrow>
                       (case merge_metadata v1_info meta of Inl e \<Rightarrow> False | Inr x \<Rightarrow> True))))"




definition ex_hard_stat :: stat where
  "ex_hard_stat = \<lparr> st_mode = 420, st_ino = 42, st_dev = 1, st_nlink = 2, st_uid = 1000,
                    st_gid = 1000, st_mtime = 1700000000 \<rparr>"

definition ex_hard :: node where
  "ex_hard = Directory [(''module.yaml'', Regular ex_stat (ex_yaml ''1.0'')),
                        (''b.bin'', Regular ex_hard_stat ''data''),
                        (''a.bin'', Regular ex_hard_stat ''data'')]"




definition same_codec :: "'h env \<Rightarrow> 'h env \<Rightarrow> bool" where
  "same_codec env1 env2 =
     (encode env1 = encode env2 \<and> sha_new env1 = sha_new env2
      \<and> sha_update env1 = sha_update env2 \<and> sha_hexdigest env1 = sha_hexdigest env2)"

definition ex_env_ci :: "bytes env" where
  "ex_env_ci = \<lparr> now_iso = ''2031-05-05T12:00:00Z'', mkdir_ok = True, writable = (\<lambda>f. True),
                 getpwuid = (\<lambda>u. ''runner''), getgrgid = (\<lambda>g. ''docker''),
                 encode = (\<lambda>f a. f @ concat (map snd (members a))),
                 sha_new = [], sha_update = (\<lambda>h b. h @ b), sha_hexdigest = (\<lambda>h. h) \<rparr>"

definition ex_stat_ci :: stat where
  "ex_stat_ci = \<lparr> st_mode = 420, st_ino = 77, st_dev = 3, st_nlink = 1, st_uid = 0,
                  st_gid = 50, st_mtime = 5 \<rparr>"

definition ex_mod_ci :: node where
  "ex_mod_ci = Directory [(''module.yaml'', Regular ex_stat_ci (ex_yaml ''1.0'')),
                          (''prompt.md'', Regular ex_stat_ci ''hello'')]"

definition ex_stat_exec :: stat where
  "ex_stat_exec = \<lparr> st_mode = 493, st_ino = 11, st_dev = 1, st_nlink = 1, st_uid = 1000,
                    st_gid = 1000, st_mtime = 1700000000 \<rparr>"

definition ex_mod_exec :: node where
  "ex_mod_exec = Directory [(''prompt.md'', Regular ex_stat_exec ''hello''),
                            (''module.yaml'', Regular ex_stat (ex_yaml ''1.0''))]"

definition ex_exec_archive :: archive where
  "ex_exec_archive = \<lparr> gz_mtime = 0,
       members = [member_at ex_mod_exec ''alpha'' ''module.yaml'', member_at ex_mod_exec ''alpha'' ''prompt.md''],
       finished = True \<rparr>"

definition ex_yaml_dotdot :: string where
  "ex_yaml_dotdot = ''name: ..'' @ [CHR 0x0A] @ ''version: 1.0'' @ [CHR 0x0A]
               @ ''tier: exec'' @ [CHR 0x0A] @ ''responsibility: review code'' @ [CHR 0x0A]"

definition ex_mod_unnamed :: node where
  "ex_mod_unnamed = Directory [(''prompt.md'', Regular ex_stat ''hello''),
                               (''module.yaml'', Regular ex_stat ex_yaml_unnamed)]"

definition ex_mod_dotdot :: node where
  "ex_mod_dotdot = Directory [(''prompt.md'', Regular ex_stat ''hello''),
                              (''module.yaml'', Regular ex_stat ex_yaml_dotdot)]"

definition ex_unnamed_archive :: archive where
  "ex_unnamed_archive = \<lparr> gz_mtime = 0,
       members = [member_at ex_mod_unnamed [] ''module.yaml'', member_at ex_mod_unnamed [] ''prompt.md''],
       finished = True \<rparr>"

definition ex_dotdot_archive :: archive where
  "ex_dotdot_archive = \<lparr> gz_mtime = 0,
       members = [member_at ex_mod_dotdot ''..'' ''module.yaml'', member_at ex_mod_dotdot ''..'' ''prompt.md''],
       finished = True \<rparr>"













definition ex_pipe :: node where
  "ex_pipe = Directory [(''module.yaml'', Regular ex_stat (ex_yaml ''1.0'')),
                        (''pipe'', Special Fifo ex_stat Blocks)]"

definition ex_dev :: node where
  "ex_dev = Directory [(''module.yaml'', Regular ex_stat (ex_yaml ''1.0'')),
                       (''null'', Special (CharDevice 1 3) ex_stat (Opens []))]"

definition ex_dev_archive :: archive where
  "ex_dev_archive = \<lparr> gz_mtime = 0,
       members = [member_at ex_dev ''alpha'' ''module.yaml'', member_at ex_dev ''alpha'' ''null''],
       finished = True \<rparr>"

definition ex_pipe_partial :: archive where
  "ex_pipe_partial = \<lparr> gz_mtime = 0, members = [member_at ex_pipe ''alpha'' ''module.yaml''],
                        finished = False \<rparr>"

definition ex_dev_entry :: entry where
  "ex_dev_entry = assemble_entry ex_args ''2026-01-01T00:00:00Z'' (ex_meta ''1.0'')
       (JString ''Legacy text'') (JString ''unknown'') (JArray [JString ''review''])
       (out_name ''alpha'' ''1.0'')
       (sha256_file ex_env (encode ex_env (out_name ''alpha'' ''1.0'') ex_dev_archive))
       (length (encode ex_env (out_name ''alpha'' ''1.0'') ex_dev_archive))
       [''module.yaml'', ''null'']"

lemma read_line_gives:
  "read_line found raw = (case line_gives raw of None \<Rightarrow> found | Some (k, v) \<Rightarrow> found(k \<mapsto> v))"
  by (auto simp: read_line_def line_gives_def Let_def split: option.splits)

lemma foldl_read_line:
  "foldl read_line found ls = found ++ map_of (rev (List.map_filter line_gives ls))"
proof (induction ls arbitrary: found)
  case Nil
  then show ?case by (simp add: List.map_filter_simps)
next
  case (Cons raw ls)
  show ?case
  proof (cases "line_gives raw")
    case None
    then have "read_line found raw = found" by (simp add: read_line_gives)
    then show ?thesis using Cons[of found] None by (simp add: List.map_filter_simps)
  next
    case (Some kv)
    obtain k v where kv: "kv = (k, v)" by (cases kv)
    have step: "read_line found raw = found(k \<mapsto> v)"
      using Some kv by (simp add: read_line_gives)
    have "foldl read_line (found(k \<mapsto> v)) ls = found(k \<mapsto> v) ++ map_of (rev (List.map_filter line_gives ls))"
      by (rule Cons)
    also have "\<dots> = found ++ map_of (rev (List.map_filter line_gives ls) @ [(k, v)])"
      by (auto simp: fun_eq_iff map_add_def split: option.splits)
    finally show ?thesis using Some kv step by (simp add: List.map_filter_simps)
  qed
qed

lemma scan_lines_eq: "scan_lines text = map_of (rev (assignments text))"
  by (simp add: scan_lines_def assignments_def foldl_read_line)

lemma scan_lines_None: "scan_lines text k = None \<longleftrightarrow> \<not> key_given k text"
  by (simp add: scan_lines_eq key_given_def map_of_eq_None_iff)

lemma scan_lines_Some: "scan_lines text k = Some v \<Longrightarrow> (k, v) \<in> set (assignments text)"
  by (auto simp: scan_lines_eq dest: map_of_SomeD)

lemma missing_keys_eq: "missing_keys (scan_lines text) = filter (\<lambda>k. \<not> key_given k text) wanted"
  by (simp add: missing_keys_def scan_lines_None)

lemma read_fails:
  assumes "\<exists>k\<in>set wanted. \<not> key_given k text"
  shows "read_module_yaml_scalars p text
           = Inl (MetadataIncomplete (filter (\<lambda>k. \<not> key_given k text) wanted) p)"
proof -
  from assms have "filter (\<lambda>k. \<not> key_given k text) wanted \<noteq> []"
    by (auto simp: filter_empty_conv)
  then show ?thesis
    by (simp add: read_module_yaml_scalars_def Let_def missing_keys_eq)
qed

lemma read_ok:
  assumes "read_module_yaml_scalars p text = Inr m"
  shows "(\<forall>k\<in>set wanted. key_given k text)
         \<and> (''name'', name m) \<in> set (assignments text)
         \<and> (''version'', version m) \<in> set (assignments text)
         \<and> (''tier'', tier m) \<in> set (assignments text)
         \<and> (''responsibility'', responsibility m) \<in> set (assignments text)"
proof -
  from assms have nil: "missing_keys (scan_lines text) = []"
    and m: "m = \<lparr> name = the (scan_lines text ''name''), version = the (scan_lines text ''version''),
                 tier = the (scan_lines text ''tier''),
                 responsibility = the (scan_lines text ''responsibility'') \<rparr>"
    by (auto simp: read_module_yaml_scalars_def Let_def split: if_splits)
  from nil have all: "\<forall>k\<in>set wanted. key_given k text"
    by (simp add: missing_keys_eq filter_empty_conv)
  have some: "k \<in> set wanted \<Longrightarrow> (k, the (scan_lines text k)) \<in> set (assignments text)" for k
  proof -
    assume "k \<in> set wanted"
    with all have "scan_lines text k \<noteq> None" by (simp add: scan_lines_None)
    then obtain v where "scan_lines text k = Some v" by blast
    then show ?thesis using scan_lines_Some by simp
  qed
  show ?thesis using all some m by (simp add: wanted_def)
qed

lemma build_tarball_disk:
  "build_tarball env disk md t n v =
     (disk @ fst (tarball_alone env md t n v), snd (tarball_alone env md t n v))"
  by (simp add: tarball_alone_def build_tarball_def Let_def split: sum.splits prod.splits)

lemma tarball_alone_writes:
  "tarball_alone env md t n v = (ws, Inr p) \<Longrightarrow>
     p = out_name n v \<and> (\<exists>arch. ws = [(p, arch)] \<and> gz_mtime arch = 0 \<and> finished arch)"
  by (auto simp: tarball_alone_def build_tarball_def Let_def split: sum.splits prod.splits if_splits)

lemma read_back_last: "read_back env (disk @ [(p, arch)]) p = Inr (encode env p arch)"
  by (simp add: read_back_def)

lemma process_module_state:
  "process_module env a v1m only' ts st m =
     (let r = module_alone env a v1m only' ts m in
      (st \<lparr> entries := set_all (entries (fst r)) (entries st),
            written := written st @ written (fst r) \<rparr>, snd r))"
  apply (simp add: process_module_def module_alone_def Let_def set_all_def build_tarball_disk
        split: sum.splits prod.splits)
  apply (auto simp: read_back_def dest!: tarball_alone_writes split: sum.splits prod.splits)
  done




lemma set_dict_set: "set (dict_set k v kvs) \<subseteq> insert (k, v) (set kvs)"
  by (induction kvs) (auto split: if_splits)

lemma set_all_Nil: "set_all [] kvs = kvs"
  by (simp add: set_all_def)

lemma set_all_Cons: "set_all (kv # new) kvs = set_all new (dict_set (fst kv) (snd kv) kvs)"
  by (simp add: set_all_def)

lemma set_all_append: "set_all (xs @ ys) kvs = set_all ys (set_all xs kvs)"
  by (simp add: set_all_def)




lemma set_set_all: "set (set_all new kvs) \<subseteq> set kvs \<union> set new"
proof (induction new arbitrary: kvs)
  case Nil
  then show ?case by (simp add: set_all_Nil)
next
  case (Cons kv new)
  have "set (set_all new (dict_set (fst kv) (snd kv) kvs)) \<subseteq> set (dict_set (fst kv) (snd kv) kvs) \<union> set new"
    by (rule Cons)
  also have "\<dots> \<subseteq> insert kv (set kvs) \<union> set new"
    using set_dict_set[of "fst kv" "snd kv" kvs] by auto
  finally show ?case by (auto simp: set_all_Cons)
qed

lemma module_alone_ok:
  assumes "module_alone env a v1m only' ts m = (s, Inr u)"
  shows "\<exists>text meta. read_text [fst m, ''module.yaml''] (snd m) = Inr text
           \<and> read_module_yaml_scalars [fst m, ''module.yaml''] text = Inr meta
           \<and> ((only' \<noteq> [] \<and> name meta \<notin> set only' \<and> s = \<lparr> entries = [], written = [] \<rparr>)
              \<or> ((only' = [] \<or> name meta \<in> set only')
                 \<and> (\<exists>v1_info d au k arch fl.
                       py_get v1m (name meta) (JObject []) = Inr v1_info
                     \<and> merge_metadata v1_info meta = Inr (d, au, k)
                     \<and> tarball_alone env [fst m] (snd m) (name meta) (version meta)
                         = ([(out_name (name meta) (version meta), arch)],
                            Inr (out_name (name meta) (version meta)))
                     \<and> list_files [fst m] (snd m) = Inr fl
                     \<and> s = \<lparr> entries = [(name meta,
                                assemble_entry a ts meta d au k (out_name (name meta) (version meta))
                                  (sha256_file env (encode env (out_name (name meta) (version meta)) arch))
                                  (length (encode env (out_name (name meta) (version meta)) arch)) fl)],
                             written = [(out_name (name meta) (version meta), arch)] \<rparr>)))"
  using assms
  apply (simp add: process_module_def module_alone_def Let_def build_tarball_disk
        split: sum.splits prod.splits if_splits)
   apply (auto simp: read_back_def dest!: tarball_alone_writes split: sum.splits prod.splits)
  done

lemma run_modules_ok:
  assumes "run_modules env a v1m only' ts ms st = (st', Inr u)"
  shows "(\<forall>m\<in>set ms. snd (module_alone env a v1m only' ts m) = Inr ())
         \<and> entries st' = set_all (concat (map (\<lambda>m. entries (fst (module_alone env a v1m only' ts m))) ms)) (entries st)
         \<and> written st' = written st @ concat (map (\<lambda>m. written (fst (module_alone env a v1m only' ts m))) ms)"
  using assms
proof (induction ms arbitrary: st)
  case Nil
  then show ?case by (simp add: set_all_Nil)
next
  case (Cons m ms)
  let ?r = "module_alone env a v1m only' ts m"
  let ?st1 = "st \<lparr> entries := set_all (entries (fst ?r)) (entries st),
                   written := written st @ written (fst ?r) \<rparr>"
  have pm: "process_module env a v1m only' ts st m = (?st1, snd ?r)"
    by (simp add: process_module_state Let_def)
  from Cons.prems pm have ok: "snd ?r = Inr ()"
    and rest: "run_modules env a v1m only' ts ms ?st1 = (st', Inr u)"
    by (auto split: sum.splits)
  from Cons.IH[OF rest] ok show ?case
    by (simp add: set_all_append)
qed



lemma lookup_append:
  "lookup t (r @ q) = (case lookup t r of None \<Rightarrow> None | Some d \<Rightarrow> lookup d q)"
proof (induction t r rule: lookup.induct)
  case (1 t)
  then show ?case by simp
next
  case (2 es c cs)
  then show ?case by (simp split: option.splits)
next
  case (3 st b c cs)
  then show ?case by simp
next
  case (4 l r c cs)
  then show ?case by simp
next
  case (5 k st rd c cs)
  then show ?case by simp
qed

lemma hyp_lookup_dir:
  assumes "lookup t r = Some (Directory es)" and "distinct (map fst es)"
  shows "hyp_lookup t r es"
  using assms by (auto simp: hyp_lookup_def lookup_append split: option.splits)

lemma hyp_lookup_Cons: "hyp_lookup t r ((n, c) # es) \<longleftrightarrow> lookup t (r @ [n]) = Some c \<and> hyp_lookup t r es"
  by (simp add: hyp_lookup_def)

lemma check_dirs_ok:
  assumes "hyp_lookup t r es" and "\<forall>(n, c)\<in>set es. \<not> (is_link c \<and> is_dir c)"
  shows "check_dirs md t r (dirs_of es) = Inr ()"
  using assms
proof (induction es)
  case Nil
  then show ?case by (simp add: dirs_of_def)
next
  case (Cons e es)
  obtain n c where e: "e = (n, c)" by (cases e)
  from Cons.prems e have l: "lookup t (r @ [n]) = Some c" and h: "hyp_lookup t r es"
    by (simp_all add: hyp_lookup_Cons)
  from Cons.prems e have nl: "\<not> (is_link c \<and> is_dir c)" and rest: "\<forall>(n, c)\<in>set es. \<not> (is_link c \<and> is_dir c)"
    by auto
  have ih: "check_dirs md t r (dirs_of es) = Inr ()" using Cons.IH h rest by simp
  show ?case
  proof (cases "is_dir c")
    case True
    with nl have "\<not> is_link c" by simp
    then have "\<not> is_symlink t (r @ [n])" using l by (cases c) (simp_all add: is_symlink_def)
    with True ih e show ?thesis using dirs_of_def by (simp add: dirs_of_def)
  next
    case False
    with ih e show ?thesis by (simp add: dirs_of_def)
  qed
qed

lemma check_dirs_fail:
  assumes "hyp_lookup t r es" and "\<exists>(n, c)\<in>set es. is_link c \<and> is_dir c"
  shows "\<exists>n c. check_dirs md t r (dirs_of es) = Inl (SymlinkRejected SymlinkedDirectory (md @ r @ [n]))
           \<and> (n, c) \<in> set es \<and> is_link c \<and> is_dir c"
  using assms
proof (induction es)
  case Nil
  then show ?case by simp
next
  case (Cons e es)
  obtain n c where e: "e = (n, c)" by (cases e)
  from Cons.prems e have l: "lookup t (r @ [n]) = Some c" and h: "hyp_lookup t r es"
    by (simp_all add: hyp_lookup_Cons)
  show ?case
  proof (cases "is_link c \<and> is_dir c")
    case True
    then have "is_symlink t (r @ [n])" using l by (cases c) (simp_all add: is_symlink_def)
    with True e show ?thesis by (auto simp: dirs_of_def)
  next
    case False
    with Cons.prems e have "\<exists>(n, c)\<in>set es. is_link c \<and> is_dir c" by auto
    from Cons.IH[OF h this] obtain n' c' where
      ih: "check_dirs md t r (dirs_of es) = Inl (SymlinkRejected SymlinkedDirectory (md @ r @ [n']))"
        "(n', c') \<in> set es" "is_link c'" "is_dir c'" by blast
    have "\<not> is_link c \<or> \<not> is_dir c" using False by simp
    then have "is_dir c \<Longrightarrow> \<not> is_symlink t (r @ [n])" using l by (cases c) (simp_all add: is_symlink_def)
    then have "check_dirs md t r (dirs_of (e # es)) = check_dirs md t r (dirs_of es)"
      using e by (simp add: dirs_of_def)
    with ih show ?thesis by auto
  qed
qed

lemma is_symlink_iff: "lookup t p = Some c \<Longrightarrow> is_symlink t p = is_link c"
  by (cases c) (simp_all add: is_symlink_def)

lemma scan_files_ok:
  assumes "hyp_lookup t r es" and "\<forall>e\<in>set es. \<not> file_link e"
  shows "scan_files md t r (nondirs_of es) out
           = Inr (out @ map (\<lambda>n. as_posix (r @ [n])) (filter (\<lambda>n. n \<noteq> ''.DS_Store'') (nondirs_of es)))"
  using assms
proof (induction es arbitrary: out)
  case Nil
  then show ?case by (simp add: nondirs_of_def)
next
  case (Cons e es)
  obtain n c where e: "e = (n, c)" by (cases e)
  from Cons.prems e have l: "lookup t (r @ [n]) = Some c" and h: "hyp_lookup t r es"
    by (simp_all add: hyp_lookup_Cons)
  from Cons.prems e have nl: "\<not> file_link (n, c)" and rest: "\<forall>e\<in>set es. \<not> file_link e"
    by auto
  note ih = Cons.IH[OF h rest]
  show ?case
  proof (cases "is_dir c")
    case True
    then show ?thesis using ih e by (simp add: nondirs_of_def)
  next
    case False
    show ?thesis
    proof (cases "n = ''.DS_Store''")
      case True
      then show ?thesis using ih e False by (simp add: nondirs_of_def)
    next
      case ds: False
      with nl False have "\<not> is_link c" by (simp add: file_link_def)
      then have "\<not> is_symlink t (r @ [n])" using l by (simp add: is_symlink_iff)
      then show ?thesis using ih e False ds by (simp add: nondirs_of_def)
    qed
  qed
qed

lemma scan_files_fail:
  assumes "hyp_lookup t r es" and "\<exists>e\<in>set es. file_link e"
  shows "\<exists>n c. scan_files md t r (nondirs_of es) out
                  = Inl (SymlinkRejected SymlinkedFile (md @ r @ [n]))
           \<and> (n, c) \<in> set es \<and> file_link (n, c)"
  using assms
proof (induction es arbitrary: out)
  case Nil
  then show ?case by simp
next
  case (Cons e es)
  obtain n c where e: "e = (n, c)" by (cases e)
  from Cons.prems e have l: "lookup t (r @ [n]) = Some c" and h: "hyp_lookup t r es"
    by (simp_all add: hyp_lookup_Cons)
  show ?case
  proof (cases "file_link (n, c)")
    case True
    then have "is_symlink t (r @ [n])" "\<not> is_dir c" "n \<noteq> ''.DS_Store''"
      using l by (simp_all add: is_symlink_iff file_link_def)
    with True e show ?thesis by (auto simp: nondirs_of_def)
  next
    case False
    with Cons.prems e have ex: "\<exists>e\<in>set es. file_link e" by auto
    have step: "\<exists>out'. scan_files md t r (nondirs_of (e # es)) out = scan_files md t r (nondirs_of es) out'"
    proof (cases "is_dir c \<or> n = ''.DS_Store''")
      case True
      then show ?thesis using e by (auto simp: nondirs_of_def)
    next
      case nd: False
      with False have "\<not> is_link c" by (simp add: file_link_def)
      then have "\<not> is_symlink t (r @ [n])" using l by (simp add: is_symlink_iff)
      then show ?thesis using e nd by (auto simp: nondirs_of_def)
    qed
    then obtain out' where
      o: "scan_files md t r (nondirs_of (e # es)) out = scan_files md t r (nondirs_of es) out'" ..
    from Cons.IH[OF h ex, of out'] o show ?thesis by auto
  qed
qed

lemma walk_loop_append:
  "walk_loop md t (xs @ ys) out =
     (case walk_loop md t xs out of Inl e \<Rightarrow> Inl e | Inr out' \<Rightarrow> walk_loop md t ys out')"
  by (induction md t xs out rule: walk_loop.induct) (auto split: sum.splits)

lemma mset_leaves_in: "mset (leaves_in r es) = mset (imm_leaves r es) + mset (sub_leaves r es)"
  by (induction r es rule: imm_leaves.induct) (auto split: node.splits)

lemma set_leaves_in: "set (leaves_in r es) = set (imm_leaves r es) \<union> set (sub_leaves r es)"
  using mset_leaves_in[of r es] by (metis set_mset_mset set_mset_union)

lemma kept_append: "kept (xs @ ys) = kept xs @ kept ys"
  by (simp add: kept_def)

lemma mset_kept: "mset xs = mset ys \<Longrightarrow> mset (kept xs) = mset (kept ys)"
proof -
  assume "mset xs = mset ys"
  then have "filter_mset packaged (mset xs) = filter_mset packaged (mset ys)" by simp
  then have "mset (filter packaged xs) = mset (filter packaged ys)" by simp
  then have "image_mset (\<lambda>pc. as_posix (fst pc)) (mset (filter packaged xs))
             = image_mset (\<lambda>pc. as_posix (fst pc)) (mset (filter packaged ys))" by simp
  then show ?thesis unfolding kept_def mset_map .
qed

lemma mset_kept_leaves_in:
  "mset (kept (leaves_in r es)) = mset (kept (imm_leaves r es)) + mset (kept (sub_leaves r es))"
proof -
  have "mset (leaves_in r es) = mset (imm_leaves r es @ sub_leaves r es)"
    by (simp add: mset_leaves_in)
  from mset_kept[OF this] show ?thesis by (simp add: kept_append)
qed

lemma imm_leaves_mem:
  "(p, c) \<in> set (imm_leaves r es) \<longleftrightarrow> (\<exists>n. p = r @ [n] \<and> (n, c) \<in> set es \<and> \<not> (\<exists>sub. c = Directory sub))"
  by (induction r es rule: imm_leaves.induct) (auto split: node.splits)

lemma sub_leaves_mem:
  "pc \<in> set (sub_leaves r es) \<longleftrightarrow> (\<exists>n sub. (n, Directory sub) \<in> set es \<and> pc \<in> set (leaves_in (r @ [n]) sub))"
  by (induction r es rule: sub_leaves.induct) (auto split: node.splits)

lemma kept_imm_leaves:
  assumes "\<forall>e\<in>set es. \<not> file_link e" and "\<forall>(n, c)\<in>set es. \<not> (is_link c \<and> is_dir c)"
  shows "kept (imm_leaves r es)
           = map (\<lambda>n. as_posix (r @ [n])) (filter (\<lambda>n. n \<noteq> ''.DS_Store'') (nondirs_of es))"
  using assms
proof (induction es)
  case Nil
  then show ?case by (simp add: kept_def nondirs_of_def)
next
  case (Cons e es)
  obtain n c where e: "e = (n, c)" by (cases e)
  from Cons have ih: "kept (imm_leaves r es)
           = map (\<lambda>n. as_posix (r @ [n])) (filter (\<lambda>n. n \<noteq> ''.DS_Store'') (nondirs_of es))"
    by simp
  have nd: "nondirs_of (e # es) = (if is_dir c then [] else [n]) @ nondirs_of es"
    using e by (simp add: nondirs_of_def)
  from Cons.prems e have a: "\<not> file_link (n, c)" and b: "\<not> (is_link c \<and> is_dir c)" by auto
  show ?case
  proof (cases c)
    case (Regular st b)
    then show ?thesis using e ih nd by (simp add: kept_def packaged_def)
  next
    case (Directory sub)
    then show ?thesis using e ih nd by (simp add: kept_def packaged_def)
  next
    case (Symlink l res)
    with a b have "res \<noteq> ToDirectory" "n = ''.DS_Store''" by (auto simp: file_link_def)
    then show ?thesis using e ih nd Symlink by (simp add: kept_def packaged_def)
  next
    case (Special k st rd)
    then show ?thesis using e ih nd by (simp add: kept_def packaged_def)
  qed
qed

lemma walk_into_ok:
  assumes "\<forall>(n, c)\<in>set es. \<forall>sub. c = Directory sub \<longrightarrow> walk_spec md t (r @ [n]) sub"
    and "\<forall>pc\<in>set (sub_leaves r es). \<not> rejected pc"
  shows "\<exists>out'. walk_loop md t (walk_into r es) out = Inr out'
           \<and> mset out' = mset out + mset (kept (sub_leaves r es))"
  using assms
proof (induction es arbitrary: out)
  case Nil
  then show ?case by (simp add: kept_def)
next
  case (Cons e es)
  obtain n c where e: "e = (n, c)" by (cases e)
  from Cons.prems e have ih_pre: "\<forall>(n, c)\<in>set es. \<forall>sub. c = Directory sub \<longrightarrow> walk_spec md t (r @ [n]) sub"
    and clean: "\<forall>pc\<in>set (sub_leaves r es). \<not> rejected pc"
    by auto
  show ?case
  proof (cases c)
    case (Directory sub)
    with Cons.prems e have ws: "walk_spec md t (r @ [n]) sub"
      and cl: "\<forall>pc\<in>set (leaves_in (r @ [n]) sub). \<not> rejected pc" by auto
    from ws cl obtain out1 where
      o1: "walk_loop md t (os_walk (r @ [n]) (Directory sub)) out = Inr out1"
      "mset out1 = mset out + mset (kept (leaves_in (r @ [n]) sub))"
      unfolding walk_spec_def by blast
    from Cons.IH[OF ih_pre clean, of out1] obtain out' where
      o2: "walk_loop md t (walk_into r es) out1 = Inr out'"
      "mset out' = mset out1 + mset (kept (sub_leaves r es))" by blast
    show ?thesis using e Directory o1 o2 by (simp add: walk_loop_append kept_append del: os_walk.simps)
  next
    case (Regular st b)
    then show ?thesis using e Cons.IH[OF ih_pre clean, of out] by simp
  next
    case (Symlink l res)
    then show ?thesis using e Cons.IH[OF ih_pre clean, of out] by simp
  next
    case (Special k st rd)
    then show ?thesis using e Cons.IH[OF ih_pre clean, of out] by simp
  qed
qed

lemma walk_into_fail:
  assumes "\<forall>(n, c)\<in>set es. \<forall>sub. c = Directory sub \<longrightarrow> walk_spec md t (r @ [n]) sub"
    and "\<exists>pc\<in>set (sub_leaves r es). rejected pc"
  shows "\<exists>k p c. walk_loop md t (walk_into r es) out = Inl (SymlinkRejected k (md @ p))
           \<and> (p, c) \<in> set (sub_leaves r es) \<and> rejected (p, c)"
  using assms
proof (induction es arbitrary: out)
  case Nil
  then show ?case by simp
next
  case (Cons e es)
  obtain n c where e: "e = (n, c)" by (cases e)
  from Cons.prems e have ih_pre: "\<forall>(n, c)\<in>set es. \<forall>sub. c = Directory sub \<longrightarrow> walk_spec md t (r @ [n]) sub"
    by auto
  show ?case
  proof (cases c)
    case (Directory sub)
    with Cons.prems e have ws: "walk_spec md t (r @ [n]) sub" by auto
    show ?thesis
    proof (cases "\<exists>pc\<in>set (leaves_in (r @ [n]) sub). rejected pc")
      case True
      with ws obtain k p x where
        "walk_loop md t (os_walk (r @ [n]) (Directory sub)) out = Inl (SymlinkRejected k (md @ p))"
        "(p, x) \<in> set (leaves_in (r @ [n]) sub)" "rejected (p, x)"
        unfolding walk_spec_def by blast
      then show ?thesis using e Directory
        by (auto simp: walk_loop_append simp del: os_walk.simps)
    next
      case False
      with ws obtain out1 where
        o1: "walk_loop md t (os_walk (r @ [n]) (Directory sub)) out = Inr out1"
        unfolding walk_spec_def by blast
      from False Cons.prems(2) e Directory have "\<exists>pc\<in>set (sub_leaves r es). rejected pc" by auto
      from Cons.IH[OF ih_pre this, of out1] obtain k p x where
        "walk_loop md t (walk_into r es) out1 = Inl (SymlinkRejected k (md @ p))"
        "(p, x) \<in> set (sub_leaves r es)" "rejected (p, x)" by blast
      then show ?thesis using e Directory o1
        by (auto simp: walk_loop_append simp del: os_walk.simps)
    qed
  next
    case (Regular st b)
    with Cons.prems(2) e have "\<exists>pc\<in>set (sub_leaves r es). rejected pc" by auto
    from Cons.IH[OF ih_pre this, of out] show ?thesis using e Regular by auto
  next
    case (Symlink l res)
    with Cons.prems(2) e have "\<exists>pc\<in>set (sub_leaves r es). rejected pc" by auto
    from Cons.IH[OF ih_pre this, of out] show ?thesis using e Symlink by auto
  next
    case (Special k st rd)
    with Cons.prems(2) e have "\<exists>pc\<in>set (sub_leaves r es). rejected pc" by auto
    from Cons.IH[OF ih_pre this, of out] show ?thesis using e Special by auto
  qed
qed

lemma wf_entries_mem: "wf_entries es \<Longrightarrow> (n, c) \<in> set es \<Longrightarrow> valid_name n \<and> wf_node c"
  by (induction es) auto

lemma rejected_imm:
  "(n, c) \<in> set es \<Longrightarrow> \<not> (\<exists>sub. c = Directory sub) \<Longrightarrow>
     rejected (r @ [n], c) \<longleftrightarrow> (is_link c \<and> is_dir c) \<or> file_link (n, c)"
  by (auto simp: rejected_def file_link_def)

lemma walk_spec_node:
  "lookup t r = Some c \<Longrightarrow> wf_node c \<Longrightarrow> c = Directory es \<Longrightarrow> walk_spec md t r es"
proof (induction c arbitrary: r es)
  case (Regular st b)
  then show ?case by simp
next
  case (Symlink l res)
  then show ?case by simp
next
  case (Special k st rd)
  then show ?case by simp
next
  case (Directory es0)
  then have es0: "es0 = es" by simp
  from Directory.prems es0 have look: "lookup t r = Some (Directory es)"
    and dist: "distinct (map fst es)" and wfe: "wf_entries es" by simp_all
  have hyp: "hyp_lookup t r es" using look dist by (rule hyp_lookup_dir)
  have kids: "\<forall>(n, c)\<in>set es. \<forall>sub. c = Directory sub \<longrightarrow> walk_spec md t (r @ [n]) sub"
  proof (clarify)
    fix n sub
    assume mem: "(n, Directory sub) \<in> set es"
    from hyp mem have l: "lookup t (r @ [n]) = Some (Directory sub)" by (auto simp: hyp_lookup_def)
    from wfe mem have w: "wf_node (Directory sub)" using wf_entries_mem by blast
    from mem es0 have "Directory sub \<in> Basic_BNFs.snds (n, Directory sub)" by simp
    from Directory.IH[OF _ this l w refl] mem es0 show "walk_spec md t (r @ [n]) sub" by simp
  qed
  have walk: "os_walk r (Directory es) = (r, dirs_of es, nondirs_of es) # walk_into r es" by simp
  show ?case unfolding walk_spec_def
  proof (intro allI)
    fix out
    let ?goal = "((\<forall>pc\<in>set (leaves_in r es). \<not> rejected pc) \<longrightarrow>
           (\<exists>out'. walk_loop md t (os_walk r (Directory es)) out = Inr out'
                  \<and> mset out' = mset out + mset (kept (leaves_in r es))))
      \<and> ((\<exists>pc\<in>set (leaves_in r es). rejected pc) \<longrightarrow>
           (\<exists>k p c. walk_loop md t (os_walk r (Directory es)) out = Inl (SymlinkRejected k (md @ p))
                  \<and> (p, c) \<in> set (leaves_in r es) \<and> rejected (p, c)))"
    consider (dirlink) "\<exists>(n, c)\<in>set es. is_link c \<and> is_dir c"
      | (filelink) "\<forall>(n, c)\<in>set es. \<not> (is_link c \<and> is_dir c)" "\<exists>e\<in>set es. file_link e"
      | (deep) "\<forall>(n, c)\<in>set es. \<not> (is_link c \<and> is_dir c)" "\<forall>e\<in>set es. \<not> file_link e"
          "\<exists>pc\<in>set (sub_leaves r es). rejected pc"
      | (clean) "\<forall>(n, c)\<in>set es. \<not> (is_link c \<and> is_dir c)" "\<forall>e\<in>set es. \<not> file_link e"
          "\<forall>pc\<in>set (sub_leaves r es). \<not> rejected pc"
      by blast
    then show ?goal
    proof cases
      case dirlink
      from check_dirs_fail[OF hyp dirlink, of md] obtain n c where
        f: "check_dirs md t r (dirs_of es) = Inl (SymlinkRejected SymlinkedDirectory (md @ r @ [n]))"
        and mem: "(n, c) \<in> set es" and lk: "is_link c" "is_dir c" by blast
      from lk have nd: "\<not> (\<exists>sub. c = Directory sub)" by (cases c) auto
      from mem nd have in_l: "(r @ [n], c) \<in> set (leaves_in r es)"
        by (auto simp: set_leaves_in imm_leaves_mem)
      have rj: "rejected (r @ [n], c)" using lk by (simp add: rejected_def)
      have "walk_loop md t (os_walk r (Directory es)) out
              = Inl (SymlinkRejected SymlinkedDirectory (md @ (r @ [n])))"
        using f by (simp add: walk)
      with in_l rj show ?thesis by blast
    next
      case filelink
      have c1: "check_dirs md t r (dirs_of es) = Inr ()"
        using check_dirs_ok[OF hyp filelink(1)] .
      from scan_files_fail[OF hyp filelink(2), of md out] obtain n c where
        f: "scan_files md t r (nondirs_of es) out = Inl (SymlinkRejected SymlinkedFile (md @ r @ [n]))"
        and mem: "(n, c) \<in> set es" and fl: "file_link (n, c)" by blast
      from fl have nd: "\<not> (\<exists>sub. c = Directory sub)" by (cases c) (auto simp: file_link_def)
      from mem nd have in_l: "(r @ [n], c) \<in> set (leaves_in r es)"
        by (auto simp: set_leaves_in imm_leaves_mem)
      have rj: "rejected (r @ [n], c)" using fl by (simp add: rejected_def file_link_def)
      have "walk_loop md t (os_walk r (Directory es)) out
              = Inl (SymlinkRejected SymlinkedFile (md @ (r @ [n])))"
        using f c1 by (simp add: walk)
      with in_l rj show ?thesis by blast
    next
      case deep
      have c1: "check_dirs md t r (dirs_of es) = Inr ()"
        using check_dirs_ok[OF hyp deep(1)] .
      note c2 = scan_files_ok[OF hyp deep(2), of md out]
      from walk_into_fail[OF kids deep(3)] obtain k p c where
        f: "walk_loop md t (walk_into r es)
              (out @ map (\<lambda>n. as_posix (r @ [n])) (filter (\<lambda>n. n \<noteq> ''.DS_Store'') (nondirs_of es)))
            = Inl (SymlinkRejected k (md @ p))"
        and mem: "(p, c) \<in> set (sub_leaves r es)" and rj: "rejected (p, c)" by blast
      have "walk_loop md t (os_walk r (Directory es)) out = Inl (SymlinkRejected k (md @ p))"
        using f c1 c2 by (simp add: walk)
      moreover have "(p, c) \<in> set (leaves_in r es)" using mem by (simp add: set_leaves_in)
      ultimately show ?thesis using rj by blast
    next
      case clean
      have c1: "check_dirs md t r (dirs_of es) = Inr ()"
        using check_dirs_ok[OF hyp clean(1)] .
      note c2 = scan_files_ok[OF hyp clean(2), of md out]
      from walk_into_ok[OF kids clean(3)] obtain out' where
        f: "walk_loop md t (walk_into r es)
              (out @ map (\<lambda>n. as_posix (r @ [n])) (filter (\<lambda>n. n \<noteq> ''.DS_Store'') (nondirs_of es)))
            = Inr out'"
        and m: "mset out' = mset (out @ map (\<lambda>n. as_posix (r @ [n])) (filter (\<lambda>n. n \<noteq> ''.DS_Store'') (nondirs_of es)))
                   + mset (kept (sub_leaves r es))" by blast
      have w: "walk_loop md t (os_walk r (Directory es)) out = Inr out'"
        using f c1 c2 by (simp add: walk)
      have m': "mset out' = mset out + mset (kept (leaves_in r es))"
        using m by (simp add: mset_kept_leaves_in kept_imm_leaves[OF clean(2) clean(1)])
      have no_imm: "\<forall>pc\<in>set (imm_leaves r es). \<not> rejected pc"
      proof
        fix pc assume a: "pc \<in> set (imm_leaves r es)"
        obtain p c where pc: "pc = (p, c)" by (cases pc)
        from a pc obtain n where n: "p = r @ [n]" "(n, c) \<in> set es" "\<not> (\<exists>sub. c = Directory sub)"
          by (auto simp: imm_leaves_mem)
        from clean(1) clean(2) n(2) have "\<not> (is_link c \<and> is_dir c)" "\<not> file_link (n, c)" by auto
        then show "\<not> rejected pc" using pc n rejected_imm[OF n(2) n(3)] by simp
      qed
      with clean(3) have "\<forall>pc\<in>set (leaves_in r es). \<not> rejected pc"
        by (auto simp: set_leaves_in)
      with w m' show ?thesis by blast
    qed
  qed
qed

lemma sort_mset_cong: "mset xs = mset ys \<Longrightarrow> sort xs = sort (ys :: string list)"
  by (rule properties_for_sort) simp_all

lemma list_files_clean:
  assumes "wf_node (Directory es)" and "\<forall>pc\<in>set (leaves_in [] es). \<not> rejected pc"
  shows "list_files md (Directory es) = Inr (sort (kept (leaves_in [] es)))"
proof -
  have "walk_spec md (Directory es) [] es"
    by (rule walk_spec_node[OF _ assms(1) refl]) simp
  with assms(2) obtain out' where
    "walk_loop md (Directory es) (os_walk [] (Directory es)) [] = Inr out'"
    "mset out' = mset (kept (leaves_in [] es))"
    unfolding walk_spec_def by fastforce
  then show ?thesis using sort_mset_cong[of out'] by (simp add: list_files_def)
qed

lemma list_files_rejects:
  assumes "wf_node (Directory es)" and "\<exists>pc\<in>set (leaves_in [] es). rejected pc"
  shows "\<exists>k p c. list_files md (Directory es) = Inl (SymlinkRejected k (md @ p))
           \<and> (p, c) \<in> set (leaves_in [] es) \<and> rejected (p, c)"
proof -
  have "walk_spec md (Directory es) [] es"
    by (rule walk_spec_node[OF _ assms(1) refl]) simp
  with assms(2) obtain k p c where
    "walk_loop md (Directory es) (os_walk [] (Directory es)) [] = Inl (SymlinkRejected k (md @ p))"
    "(p, c) \<in> set (leaves_in [] es)" "rejected (p, c)"
    unfolding walk_spec_def by blast
  then show ?thesis by (auto simp: list_files_def)
qed

lemma split_slash_noslash: "CHR ''/'' \<notin> set n \<Longrightarrow> split_slash n = [n]"
  by (induction n) auto

lemma split_slash_append: "CHR ''/'' \<notin> set n \<Longrightarrow> split_slash (n @ CHR ''/'' # s) = n # split_slash s"
  by (induction n) auto

lemma split_slash_as_posix:
  "q \<noteq> [] \<Longrightarrow> \<forall>n\<in>set q. CHR ''/'' \<notin> set n \<Longrightarrow> split_slash (as_posix q) = q"
proof (induction q rule: as_posix.induct)
  case 1
  then show ?case by simp
next
  case (2 c)
  then show ?case by (simp add: split_slash_noslash)
next
  case (3 c d cs)
  then show ?case by (simp add: split_slash_append)
qed

lemma path_parts_as_posix:
  assumes "q \<noteq> []" and "\<forall>n\<in>set q. valid_name n"
  shows "path_parts (as_posix q) = q"
proof -
  from assms have "split_slash (as_posix q) = q"
    by (intro split_slash_as_posix) (auto simp: valid_name_def)
  moreover from assms(2) have "filter (\<lambda>c. c \<noteq> [] \<and> c \<noteq> ''.'') q = q"
    by (auto simp: valid_name_def filter_id_conv)
  ultimately show ?thesis by (simp add: path_parts_def)
qed

lemma leaves_in_mem:
  "pc \<in> set (leaves_in r es) \<longleftrightarrow> (\<exists>(n, c)\<in>set es. pc \<in> set (leaves (r @ [n]) c))"
  by (induction es) auto

lemma map_of_distinct: "distinct (map fst es) \<Longrightarrow> (n, c) \<in> set es \<Longrightarrow> map_of es n = Some c"
  by simp

lemma leaves_lookup:
  "wf_node c \<Longrightarrow> (p, x) \<in> set (leaves r c) \<Longrightarrow>
     \<exists>q. p = r @ q \<and> lookup c q = Some x \<and> (\<forall>n\<in>set q. valid_name n)
        \<and> ((\<exists>es. c = Directory es) \<longrightarrow> q \<noteq> []) \<and> \<not> (\<exists>sub. x = Directory sub)"
proof (induction c arbitrary: r p x)
  case (Regular st b)
  then show ?case by auto
next
  case (Symlink l res)
  then show ?case by auto
next
  case (Special k st rd)
  then show ?case by auto
next
  case (Directory es)
  from Directory.prems obtain n c where
    mem: "(n, c) \<in> set es" and inl: "(p, x) \<in> set (leaves (r @ [n]) c)"
    by (auto simp: leaves_in_mem)
  from Directory.prems(1) mem have vn: "valid_name n" and wc: "wf_node c" and d: "distinct (map fst es)"
    using wf_entries_mem by auto
  have "c \<in> Basic_BNFs.snds (n, c)" by simp
  from Directory.IH[OF mem this wc inl] obtain q where
    q: "p = (r @ [n]) @ q" "lookup c q = Some x" "\<forall>n\<in>set q. valid_name n"
       "\<not> (\<exists>sub. x = Directory sub)" by blast
  have "lookup (Directory es) (n # q) = Some x"
    using q(2) map_of_distinct[OF d mem] by simp
  with q vn show ?case by (intro exI[of _ "n # q"]) auto
qed

lemma add_files_added:
  "add_files env md t nm rels tf = (tf', r) \<Longrightarrow>
     \<exists>new. added tf' = added tf @ new
        \<and> (\<forall>m\<in>set new. normalised (fst m)
                \<and> ti_type (fst m) \<in> {REGTYPE, FIFOTYPE, CHRTYPE, BLKTYPE})
        \<and> map (\<lambda>m. ti_name (fst m)) new = map (arc nm) (take (length new) rels)
        \<and> (r = Inr () \<longrightarrow> length new = length rels)"
proof (induction rels arbitrary: tf)
  case Nil
  then show ?case by auto
next
  case (Cons rel rels)
  show ?case
  proof (cases "gettarinfo env t (path_parts rel) (nm @ ''/'' @ rel) (inodes tf)")
    case (Inl e)
    with Cons.prems show ?thesis by (auto simp: Let_def)
  next
    case (Inr x)
    obtain res ino where x0: "x = (res, ino)" by (cases x)
    show ?thesis
    proof (cases res)
      case None
      with Cons.prems Inr x0 show ?thesis by (auto simp: Let_def)
    next
      case (Some ti0)
      with x0 have x: "x = (Some ti0, ino)" by simp
      let ?ti = "ti0 \<lparr> ti_uid := 0, ti_gid := 0, ti_uname := ''root'', ti_gname := ''root'', ti_mtime := 0 \<rparr>"
      have nm0: "ti_name ti0 = arc nm rel"
        using Inr x by (auto simp: gettarinfo_def Let_def arc_def mk_tarinfo_def
            split: option.splits node.splits if_splits special.splits)
      show ?thesis
      proof (cases "issym ?ti \<or> islnk ?ti")
        case True
        with Cons.prems Inr x show ?thesis by (auto simp: Let_def)
      next
        case False
        show ?thesis
        proof (cases "open_rb t (path_parts rel)")
          case (Inl e)
          with Cons.prems \<open>gettarinfo env t (path_parts rel) (nm @ ''/'' @ rel) (inodes tf) = Inr x\<close> x False
          show ?thesis by (auto simp: Let_def)
        next
          case (Inr content)
          let ?tf1 = "addfile (tf \<lparr> inodes := ino \<rparr>) ?ti content"
          from Cons.prems \<open>gettarinfo env t (path_parts rel) (nm @ ''/'' @ rel) (inodes tf) = Inr x\<close> x False Inr
          have rest: "add_files env md t nm rels ?tf1 = (tf', r)" by (simp add: Let_def)
          from Cons.IH[OF rest] obtain new where
            new: "added tf' = added ?tf1 @ new"
            "\<forall>m\<in>set new. normalised (fst m) \<and> ti_type (fst m) \<in> {REGTYPE, FIFOTYPE, CHRTYPE, BLKTYPE}"
            "map (\<lambda>m. ti_name (fst m)) new = map (arc nm) (take (length new) rels)"
            "r = Inr () \<longrightarrow> length new = length rels" by blast
          have ty: "ti_type ti0 \<in> {REGTYPE, FIFOTYPE, CHRTYPE, BLKTYPE}"
            using False \<open>gettarinfo env t (path_parts rel) (nm @ ''/'' @ rel) (inodes tf) = Inr x\<close> x Inr
            by (auto simp: gettarinfo_def Let_def mk_tarinfo_def issym_def islnk_def open_rb_def
                split: option.splits node.splits if_splits special.splits)
          let ?new = "(?ti, take (ti_size ?ti) content) # new"
          have "added tf' = added tf @ ?new" using new(1) by (simp add: addfile_def)
          moreover have "\<forall>m\<in>set ?new. normalised (fst m)
                           \<and> ti_type (fst m) \<in> {REGTYPE, FIFOTYPE, CHRTYPE, BLKTYPE}"
            using new(2) ty by (simp add: normalised_def)
          moreover have "map (\<lambda>m. ti_name (fst m)) ?new = map (arc nm) (take (length ?new) (rel # rels))"
            using new(3) nm0 by simp
          moreover have "r = Inr () \<longrightarrow> length ?new = length (rel # rels)" using new(4) by simp
          ultimately show ?thesis by blast
        qed
      qed
    qed
  qed
qed



lemma add_files_members:
  "add_files env md t nm rels tf = (tf', Inr ()) \<Longrightarrow>
     added tf' = added tf @ map (member_at t nm) rels"
proof (induction rels arbitrary: tf)
  case Nil
  then show ?case by simp
next
  case (Cons rel rels)
  from Cons.prems obtain x where g: "gettarinfo env t (path_parts rel) (nm @ ''/'' @ rel) (inodes tf) = Inr x"
    by (cases "gettarinfo env t (path_parts rel) (nm @ ''/'' @ rel) (inodes tf)") (auto simp: Let_def)
  obtain res ino where x0: "x = (res, ino)" by (cases x)
  from Cons.prems g x0 obtain ti0 where x: "x = (Some ti0, ino)"
    by (cases res) (auto simp: Let_def)
  let ?ti = "ti0 \<lparr> ti_uid := 0, ti_gid := 0, ti_uname := ''root'', ti_gname := ''root'', ti_mtime := 0 \<rparr>"
  from Cons.prems g x have nl: "\<not> (issym ?ti \<or> islnk ?ti)"
    by (auto simp: Let_def split: if_splits)
  from Cons.prems g x nl obtain content where o: "open_rb t (path_parts rel) = Inr content"
    by (cases "open_rb t (path_parts rel)") (auto simp: Let_def)
  let ?tf1 = "addfile (tf \<lparr> inodes := ino \<rparr>) ?ti content"
  from Cons.prems g x nl o have rest: "add_files env md t nm rels ?tf1 = (tf', Inr ())"
    by (simp add: Let_def)
  have mem: "(?ti, take (ti_size ?ti) content) = member_at t nm rel"
    using g x nl o
    by (auto simp: gettarinfo_def Let_def mk_tarinfo_def issym_def islnk_def open_rb_def
        member_at_def member_def special_member_def arc_def
        split: option.splits node.splits if_splits special.splits reading.splits resolved.splits)
  from Cons.IH[OF rest] show ?case using mem by (simp add: addfile_def)
qed

lemma main_unfold:
  "main env a v1 globbed =
     (case py_get v1 ''modules'' (JObject []) of
        Inl e \<Rightarrow> ([], Inl e)
      | Inr v1m \<Rightarrow>
          (case run_modules env a v1m (run_only a) (run_ts env a) (sort_key fst globbed)
                  \<lparr> entries = [], written = [] \<rparr> of
             (st, Inl e) \<Rightarrow> (written st, Inl e)
           | (st, Inr u) \<Rightarrow>
               (case py_get v1 ''categories'' (JObject []) of
                  Inl e \<Rightarrow> (written st, Inl e)
                | Inr cats \<Rightarrow> (written st, Inr (make_registry (run_ts env a) cats (entries st))))))"
  unfolding main_def run_only_def run_ts_def Let_def ..

lemma main_ok:
  assumes "main env a v1 globbed = (disk, Inr reg)"
  shows "py_get v1 ''modules'' (JObject []) = Inr (legacy_modules v1)"
    and "\<forall>m\<in>set globbed. snd (alone env a v1 m) = Inr ()"
    and "modules reg = set_all (concat (map (\<lambda>m. entries (fst (alone env a v1 m))) (sort_key fst globbed))) []"
    and "disk = concat (map (\<lambda>m. written (fst (alone env a v1 m))) (sort_key fst globbed))"
    and "featured reg = map fst (modules reg)"
    and "total_modules (stats reg) = length (modules reg)"
    and "updated reg = run_ts env a"
proof -
  from assms obtain v1m where v: "py_get v1 ''modules'' (JObject []) = Inr v1m"
    by (auto simp: main_unfold split: sum.splits)
  then have lm: "legacy_modules v1 = v1m" by (simp add: legacy_modules_def)
  from assms v obtain st cats where
    run: "run_modules env a v1m (run_only a) (run_ts env a) (sort_key fst globbed)
            \<lparr> entries = [], written = [] \<rparr> = (st, Inr ())"
    and reg: "reg = make_registry (run_ts env a) cats (entries st)" and d: "disk = written st"
    by (auto simp: main_unfold split: sum.splits prod.splits)
  note ok = run_modules_ok[OF run]
  show "py_get v1 ''modules'' (JObject []) = Inr (legacy_modules v1)" using v lm by simp
  show "\<forall>m\<in>set globbed. snd (alone env a v1 m) = Inr ()"
    using ok lm by (simp add: alone_def)
  show "modules reg = set_all (concat (map (\<lambda>m. entries (fst (alone env a v1 m))) (sort_key fst globbed))) []"
    using ok lm reg by (simp add: alone_def make_registry_def)
  show "disk = concat (map (\<lambda>m. written (fst (alone env a v1 m))) (sort_key fst globbed))"
    using ok lm d by (simp add: alone_def)
  show "featured reg = map fst (modules reg)" using reg by (simp add: make_registry_def)
  show "total_modules (stats reg) = length (modules reg)" using reg by (simp add: make_registry_def)
  show "updated reg = run_ts env a" using reg by (simp add: make_registry_def)
qed



lemma alone_read_fails:
  assumes "read_text [fst m, ''module.yaml''] (snd m) = Inr text"
    and "read_module_yaml_scalars [fst m, ''module.yaml''] text = Inl e"
  shows "alone env a v1 m = (\<lparr> entries = [], written = [] \<rparr>, Inl e)"
  using assms by (simp add: alone_def module_alone_def process_module_def Let_def)

lemma merge_metadata_legacy:
  assumes "py_get v1m n (JObject []) = Inr v1_info" and "merge_metadata v1_info meta = Inr (d, au, k)"
  shows "d = py_or (legacy_field v1m n ''description'') (JString (responsibility meta))"
    and "au = py_or (legacy_field v1m n ''author'') (JString ''unknown'')"
    and "k = py_or (legacy_field v1m n ''tags'') (JArray [])"
proof -
  from assms(2) obtain fs where fs: "v1_info = JObject fs"
    by (cases v1_info) (auto simp: merge_metadata_def)
  from assms(1) obtain ms where ms: "v1m = JObject ms" by (cases v1m) auto
  have lf: "legacy_field v1m n key = (case map_of fs key of Some v \<Rightarrow> v | None \<Rightarrow> JNull)" for key
    using assms(1) fs ms by (auto simp: legacy_field_def split: option.splits)
  from assms(2) fs show "d = py_or (legacy_field v1m n ''description'') (JString (responsibility meta))"
    and "au = py_or (legacy_field v1m n ''author'') (JString ''unknown'')"
    and "k = py_or (legacy_field v1m n ''tags'') (JArray [])"
    by (auto simp: merge_metadata_def lf)
qed

lemma alone_entry:
  assumes "snd (alone env a v1 m) = Inr ()" and "(n, e) \<in> set (entries (fst (alone env a v1 m)))"
  shows "\<exists>text meta v1_info d au k arch fl.
           read_text [fst m, ''module.yaml''] (snd m) = Inr text
         \<and> read_module_yaml_scalars [fst m, ''module.yaml''] text = Inr meta
         \<and> name meta = n
         \<and> py_get (legacy_modules v1) n (JObject []) = Inr v1_info
         \<and> merge_metadata v1_info meta = Inr (d, au, k)
         \<and> tarball_alone env [fst m] (snd m) n (version meta)
              = ([(out_name n (version meta), arch)], Inr (out_name n (version meta)))
         \<and> list_files [fst m] (snd m) = Inr fl
         \<and> written (fst (alone env a v1 m)) = [(out_name n (version meta), arch)]
         \<and> entries (fst (alone env a v1 m)) = [(n, e)]
         \<and> e = assemble_entry a (run_ts env a) meta d au k (out_name n (version meta))
                  (sha256_file env (encode env (out_name n (version meta)) arch))
                  (length (encode env (out_name n (version meta)) arch)) fl"
proof -
  obtain s where s: "alone env a v1 m = (s, Inr ())" using assms(1) by (cases "alone env a v1 m") auto
  from module_alone_ok[OF s[unfolded alone_def]] assms(2) s show ?thesis
    by (fastforce simp: alone_def)
qed







lemma packaged_leaf:
  assumes "wf_node (Directory es)" and "pc \<in> set (leaves_in [] es)" and "packaged pc"
  shows "(is_regular (snd pc) \<or> is_special (snd pc))
           \<and> fst pc \<noteq> [] \<and> (\<forall>n\<in>set (fst pc). valid_name n)
           \<and> last (fst pc) \<noteq> ''.DS_Store''
           \<and> path_parts (as_posix (fst pc)) = fst pc
           \<and> lookup (Directory es) (fst pc) = Some (snd pc)"
proof -
  obtain p x where pc: "pc = (p, x)" by (cases pc)
  from assms(2) pc have "(p, x) \<in> set (leaves [] (Directory es))" by simp
  from leaves_lookup[OF assms(1) this] obtain q where
    q: "p = [] @ q" "lookup (Directory es) q = Some x" "\<forall>n\<in>set q. valid_name n" "q \<noteq> []" by blast
  from assms(3) pc have x: "is_regular x \<or> is_special x" and ds: "last p \<noteq> ''.DS_Store''"
    by (auto simp: packaged_def)
  from q have "path_parts (as_posix p) = p" by (simp add: path_parts_as_posix)
  with q x ds pc show ?thesis by simp
qed

lemma regular_leaf:
  assumes "wf_node (Directory es)" and "regular_only (Directory es)"
    and "pc \<in> set (leaves_in [] es)" and "packaged pc"
  shows "\<exists>st b. snd pc = Regular st b \<and> fst pc \<noteq> [] \<and> (\<forall>n\<in>set (fst pc). valid_name n)
           \<and> last (fst pc) \<noteq> ''.DS_Store''
           \<and> path_parts (as_posix (fst pc)) = fst pc
           \<and> lookup (Directory es) (fst pc) = Some (Regular st b)"
proof -
  from assms(2,3,4) have "is_regular (snd pc)" by (simp add: regular_only_def)
  then obtain st b where "snd pc = Regular st b" by (cases "snd pc") simp_all
  with packaged_leaf[OF assms(1,3,4)] show ?thesis by simp
qed

lemma kept_mem:
  "rel \<in> set (kept xs) \<longleftrightarrow> (\<exists>pc\<in>set xs. packaged pc \<and> rel = as_posix (fst pc))"
  by (auto simp: kept_def)


lemma as_posix_head:
  assumes "p \<noteq> []" and "\<forall>n\<in>set p. valid_name n"
  shows "as_posix p \<noteq> [] \<and> hd (as_posix p) \<noteq> CHR ''/''"
proof (cases p)
  case Nil
  with assms show ?thesis by simp
next
  case (Cons n rest)
  with assms have v: "n \<noteq> []" "CHR ''/'' \<notin> set n" by (auto simp: valid_name_def)
  then have "hd n \<noteq> CHR ''/''" by (cases n) auto
  then show ?thesis using Cons v by (cases rest) auto
qed



lemma manifest_set: "set (manifest t) = set (kept (leaves [] t))"
  by (simp add: manifest_def)

lemma manifest_entry:
  assumes "wf_node (Directory es)" and "rel \<in> set (manifest (Directory es))"
  shows "\<exists>p c. rel = as_posix p \<and> (p, c) \<in> set (leaves_in [] es)
           \<and> (is_regular c \<or> is_special c)
           \<and> last p \<noteq> ''.DS_Store'' \<and> path_parts rel = p
           \<and> lookup (Directory es) (path_parts rel) = Some c
           \<and> rel \<noteq> [] \<and> hd rel \<noteq> CHR ''/''"
proof -
  from assms(2) obtain pc where pc: "pc \<in> set (leaves_in [] es)" "packaged pc" "rel = as_posix (fst pc)"
    by (auto simp: manifest_set kept_mem)
  from packaged_leaf[OF assms(1) pc(1,2)] have
    f: "is_regular (snd pc) \<or> is_special (snd pc)" "fst pc \<noteq> []" "\<forall>n\<in>set (fst pc). valid_name n"
       "last (fst pc) \<noteq> ''.DS_Store''" "path_parts (as_posix (fst pc)) = fst pc"
       "lookup (Directory es) (fst pc) = Some (snd pc)" by simp_all
  have "(fst pc, snd pc) \<in> set (leaves_in [] es)" using pc(1) by simp
  moreover note as_posix_head[OF f(2,3)]
  ultimately show ?thesis using pc(3) f by (intro exI[of _ "fst pc"] exI[of _ "snd pc"]) simp
qed

lemma manifest_regular:
  assumes "wf_node (Directory es)" and "regular_only (Directory es)"
    and "rel \<in> set (manifest (Directory es))"
  shows "\<exists>p st b. rel = as_posix p \<and> (p, Regular st b) \<in> set (leaves_in [] es)
           \<and> last p \<noteq> ''.DS_Store'' \<and> path_parts rel = p
           \<and> lookup (Directory es) (path_parts rel) = Some (Regular st b)
           \<and> rel \<noteq> [] \<and> hd rel \<noteq> CHR ''/''"
proof -
  from manifest_entry[OF assms(1,3)] obtain p c where
    f: "rel = as_posix p" "(p, c) \<in> set (leaves_in [] es)" "is_regular c \<or> is_special c"
       "last p \<noteq> ''.DS_Store''" "path_parts rel = p" "lookup (Directory es) (path_parts rel) = Some c"
       "rel \<noteq> []" "hd rel \<noteq> CHR ''/''" by blast
  from f(2,3,4) have "packaged (p, c)" by (simp add: packaged_def)
  with assms(2) f(2) have "is_regular c" by (auto simp: regular_only_def)
  then obtain st b where "c = Regular st b" by (cases c) simp_all
  with f show ?thesis by blast
qed


lemma list_files_manifest:
  assumes "wf_node (Directory es)" and "\<forall>pc\<in>set (leaves_in [] es). \<not> rejected pc"
  shows "list_files md (Directory es) = Inr (manifest (Directory es))"
  using list_files_clean[OF assms] by (simp add: manifest_def)

lemma check_dirs_error:
  "check_dirs md t r ds = Inl e \<Longrightarrow> \<exists>q. e = SymlinkRejected SymlinkedDirectory q"
  by (induction ds) (auto split: if_splits)

lemma scan_files_error:
  "scan_files md t r fs out = Inl e \<Longrightarrow> \<exists>q. e = SymlinkRejected SymlinkedFile q"
  by (induction fs arbitrary: out) (auto split: if_splits)

lemma walk_loop_error:
  "walk_loop md t xs out = Inl e \<Longrightarrow> \<exists>k q. e = SymlinkRejected k q \<and> k \<noteq> SymlinkOrHardlink"
proof (induction xs arbitrary: out)
  case Nil
  then show ?case by simp
next
  case (Cons x xs)
  obtain root dirs files where x: "x = (root, dirs, files)" by (cases x)
  show ?case
  proof (cases "check_dirs md t root dirs")
    case (Inl e1)
    with Cons.prems x have "e = e1" by simp
    with check_dirs_error[OF Inl] show ?thesis by auto
  next
    case (Inr u)
    show ?thesis
    proof (cases "scan_files md t root files out")
      case (Inl e2)
      with Cons.prems x Inr have "e = e2" by simp
      with scan_files_error[OF Inl] show ?thesis by auto
    next
      case inr2: (Inr out')
      with Cons.prems x Inr have "walk_loop md t xs out' = Inl e" by simp
      then show ?thesis by (rule Cons.IH)
    qed
  qed
qed

lemma list_files_error:
  "list_files md t = Inl e \<Longrightarrow> \<exists>k q. e = SymlinkRejected k q \<and> k \<noteq> SymlinkOrHardlink"
  using walk_loop_error[of md t "os_walk [] t" "[]" e]
  by (auto simp: list_files_def split: sum.splits)

lemma build_tarball_rejects:
  assumes "wf_node (Directory es)" and "mkdir_ok env" and "\<exists>pc\<in>set (leaves_in [] es). rejected pc"
  shows "\<exists>k p c. list_files md (Directory es) = Inl (SymlinkRejected k (md @ p))
           \<and> build_tarball env disk md (Directory es) nm ver = (disk, Inl (SymlinkRejected k (md @ p)))
           \<and> (p, c) \<in> set (leaves_in [] es) \<and> rejected (p, c) \<and> k \<noteq> SymlinkOrHardlink"
proof -
  from list_files_rejects[OF assms(1,3), of md] obtain k p c where
    f: "list_files md (Directory es) = Inl (SymlinkRejected k (md @ p))"
       "(p, c) \<in> set (leaves_in [] es)" "rejected (p, c)" by blast
  have b: "build_tarball env disk md (Directory es) nm ver = (disk, Inl (SymlinkRejected k (md @ p)))"
    using f(1) assms(2) by (simp add: build_tarball_def Let_def)
  from list_files_error[OF f(1)] have "k \<noteq> SymlinkOrHardlink" by simp
  with f b show ?thesis by blast
qed




lemma leaves_in_concat: "leaves_in r es = concat (map (\<lambda>e. leaves (r @ [fst e]) (snd e)) es)"
  by (induction es) auto

lemma mset_concat_map_cong:
  "mset xs = mset ys \<Longrightarrow> mset (concat (map f xs)) = mset (concat (map f ys))"
proof -
  assume a: "mset xs = mset ys"
  have "\<And>zs. mset (concat (map f zs)) = sum_mset (image_mset (\<lambda>z. mset (f z)) (mset zs))"
  proof -
    fix zs show "mset (concat (map f zs)) = sum_mset (image_mset (\<lambda>z. mset (f z)) (mset zs))"
      by (induction zs) auto
  qed
  then show ?thesis using a by simp
qed

lemma reorder_leaves: "reorder t t' \<Longrightarrow> mset (leaves r t) = mset (leaves r t')"
proof (induction arbitrary: r rule: reorder.induct)
  case (reorder_file st b)
  then show ?case by simp
next
  case (reorder_link l res)
  then show ?case by simp
next
  case (reorder_special k st rd)
  then show ?case by simp
next
  case (reorder_dir es es' es'')
  have "mset (leaves_in r es) = mset (leaves_in r es')"
    using reorder_dir.IH
  proof (induction es es' rule: list_all2_induct)
    case Nil
    then show ?case by simp
  next
    case (Cons e es e' es')
    obtain n c where e: "e = (n, c)" by (cases e)
    obtain n' c' where e': "e' = (n', c')" by (cases e')
    from Cons e e' show ?case by simp
  qed
  also have "\<dots> = mset (leaves_in r es'')"
    unfolding leaves_in_concat using reorder_dir.hyps by (rule mset_concat_map_cong)
  finally show ?case by simp
qed

lemma wf_entries_iff: "wf_entries es \<longleftrightarrow> (\<forall>(n, c)\<in>set es. valid_name n \<and> wf_node c)"
  by (induction es) auto

lemma reorder_wf: "reorder t t' \<Longrightarrow> wf_node t \<Longrightarrow> wf_node t'"
proof (induction rule: reorder.induct)
  case (reorder_file st b)
  then show ?case by simp
next
  case (reorder_link l res)
  then show ?case by simp
next
  case (reorder_special k st rd)
  then show ?case by simp
next
  case (reorder_dir es es' es'')
  from reorder_dir.prems have d: "distinct (map fst es)" and w: "wf_entries es" by simp_all
  have "map fst es = map fst es' \<and> (wf_entries es \<longrightarrow> wf_entries es')"
    using reorder_dir.IH
  proof (induction es es' rule: list_all2_induct)
    case Nil
    then show ?case by simp
  next
    case (Cons e es e' es')
    obtain n c where e: "e = (n, c)" by (cases e)
    obtain n' c' where e': "e' = (n', c')" by (cases e')
    from Cons e e' show ?case by simp
  qed
  with d w have d': "distinct (map fst es')" and w': "wf_entries es'" by simp_all
  have "mset (map fst es') = mset (map fst es'')" using reorder_dir.hyps by simp
  then have "distinct (map fst es'')" using d' by (metis mset_eq_imp_distinct_iff)
  moreover have "set es' = set es''" using reorder_dir.hyps by (metis set_mset_mset)
  then have "wf_entries es''" using w' by (simp add: wf_entries_iff)
  ultimately show ?case by simp
qed

lemma reorder_is_directory: "reorder (Directory es) t' \<Longrightarrow> \<exists>es'. t' = Directory es'"
  by (cases rule: reorder.cases) auto

lemma list_files_reorder:
  assumes "wf_node (Directory es)" and "reorder (Directory es) t'"
    and "list_files md (Directory es) = Inr m"
  shows "list_files md' t' = Inr m"
proof -
  from reorder_is_directory[OF assms(2)] obtain es' where t': "t' = Directory es'" ..
  have wf': "wf_node (Directory es')" using reorder_wf[OF assms(2) assms(1)] t' by simp
  have ms: "mset (leaves_in [] es) = mset (leaves_in [] es')"
    using reorder_leaves[OF assms(2), of "[]"] t' by simp
  then have st: "set (leaves_in [] es) = set (leaves_in [] es')" by (metis set_mset_mset)
  have clean: "\<forall>pc\<in>set (leaves_in [] es). \<not> rejected pc"
  proof (rule ccontr)
    assume "\<not> (\<forall>pc\<in>set (leaves_in [] es). \<not> rejected pc)"
    then have "\<exists>pc\<in>set (leaves_in [] es). rejected pc" by simp
    from list_files_rejects[OF assms(1) this, of md] assms(3) show False by auto
  qed
  then have clean': "\<forall>pc\<in>set (leaves_in [] es'). \<not> rejected pc" using st by simp
  have "m = sort (kept (leaves_in [] es))" using list_files_clean[OF assms(1) clean, of md] assms(3) by simp
  also have "\<dots> = sort (kept (leaves_in [] es'))" using mset_kept[OF ms] by (rule sort_mset_cong)
  finally show ?thesis using list_files_clean[OF wf' clean', of md'] t' by simp
qed

lemma mset_kept_payload: "mset (kept (leaves [] t)) = image_mset fst (payload t)"
proof -
  have "fst \<circ> file_facts = (\<lambda>pc. as_posix (fst pc))" by (simp add: fun_eq_iff file_facts_def)
  then show ?thesis by (simp add: kept_def payload_def multiset.map_comp)
qed

lemma member_at_payload:
  assumes "wf_node (Directory es)" and "f \<in># payload (Directory es)"
  shows "member_at (Directory es) nm (fst f) = packed nm f"
proof -
  from assms(2) obtain pc where pc: "pc \<in> set (leaves_in [] es)" "packaged pc" "f = file_facts pc"
    by (auto simp: payload_def)
  from packaged_leaf[OF assms(1) pc(1,2)] have
    l: "is_regular (snd pc) \<or> is_special (snd pc)" "path_parts (as_posix (fst pc)) = fst pc"
       "lookup (Directory es) (fst pc) = Some (snd pc)" by simp_all
  have f: "f = (as_posix (fst pc), node_facts (snd pc))" using pc(3) by (simp add: file_facts_def)
  from l(1) show ?thesis unfolding f
    by (cases "snd pc")
       (simp_all add: member_at_def l(2,3) member_def special_member_def packed_def split: prod.splits)
qed

lemma manifest_payload:
  assumes "payload t1 = payload t2"
  shows "manifest t1 = manifest t2"
proof -
  have "mset (kept (leaves [] t1)) = mset (kept (leaves [] t2))"
    using assms by (simp add: mset_kept_payload)
  then show ?thesis unfolding manifest_def by (rule sort_mset_cong)
qed

lemma members_payload:
  assumes "wf_node (Directory es1)" and "wf_node (Directory es2)"
    and "payload (Directory es1) = payload (Directory es2)"
  shows "map (member_at (Directory es1) nm) (manifest (Directory es1))
           = map (member_at (Directory es2) nm) (manifest (Directory es2))"
proof -
  have m: "manifest (Directory es1) = manifest (Directory es2)" using assms(3) by (rule manifest_payload)
  have "\<forall>rel\<in>set (manifest (Directory es1)).
          member_at (Directory es1) nm rel = member_at (Directory es2) nm rel"
  proof
    fix rel assume "rel \<in> set (manifest (Directory es1))"
    then have "rel \<in># mset (kept (leaves [] (Directory es1)))" by (simp add: manifest_def)
    then have "rel \<in># image_mset fst (payload (Directory es1))" by (simp only: mset_kept_payload)
    then obtain f where f: "f \<in># payload (Directory es1)" "rel = fst f" by auto
    from f(1) assms(3) have f2: "f \<in># payload (Directory es2)" by simp
    from member_at_payload[OF assms(1) f(1), of nm] member_at_payload[OF assms(2) f2, of nm] f(2)
    show "member_at (Directory es1) nm rel = member_at (Directory es2) nm rel" by simp
  qed
  then show ?thesis unfolding m[symmetric] by simp
qed

lemma reorder_payload: "reorder t t' \<Longrightarrow> payload t = payload t'"
proof -
  assume "reorder t t'"
  then have "mset (leaves [] t) = mset (leaves [] t')" by (rule reorder_leaves)
  then have "filter_mset packaged (mset (leaves [] t)) = filter_mset packaged (mset (leaves [] t'))"
    by simp
  then have "mset (filter packaged (leaves [] t)) = mset (filter packaged (leaves [] t'))" by simp
  then have "image_mset file_facts (mset (filter packaged (leaves [] t)))
               = image_mset file_facts (mset (filter packaged (leaves [] t')))" by simp
  then show ?thesis unfolding payload_def mset_map .
qed

lemma build_tarball_success:
  assumes "wf_node (Directory es)"
    and "build_tarball env disk md (Directory es) nm ver = (disk', Inr p)"
  shows "list_files md (Directory es) = Inr (manifest (Directory es))
       \<and> p = out_name nm ver
       \<and> disk' = disk @ [(p, \<lparr> gz_mtime = 0,
                                members = map (member_at (Directory es) nm) (manifest (Directory es)),
                                finished = True \<rparr>)]"
proof -
  from assms(2) have mk: "mkdir_ok env" by (auto simp: build_tarball_def Let_def split: if_splits)
  have clean: "\<forall>pc\<in>set (leaves_in [] es). \<not> rejected pc"
  proof (rule ccontr)
    assume "\<not> (\<forall>pc\<in>set (leaves_in [] es). \<not> rejected pc)"
    then have "\<exists>pc\<in>set (leaves_in [] es). rejected pc" by simp
    from build_tarball_rejects[OF assms(1) mk this, of md disk nm ver] assms(2) show False by auto
  qed
  have lf: "list_files md (Directory es) = Inr (manifest (Directory es))"
    using list_files_manifest[OF assms(1) clean] .
  have wr: "writable env (out_name nm ver)"
    using assms(2) mk lf by (auto simp: build_tarball_def Let_def split: if_splits)
  obtain tf r where a: "add_files env md (Directory es) nm (manifest (Directory es))
                          \<lparr> inodes = Map.empty, added = [] \<rparr> = (tf, r)"
    by (cases "add_files env md (Directory es) nm (manifest (Directory es))
                 \<lparr> inodes = Map.empty, added = [] \<rparr>")
  from assms(2) mk lf wr a have r: "r = Inr ()" and p: "p = out_name nm ver"
    and d: "disk' = disk @ [(p, \<lparr> gz_mtime = 0, members = added tf, finished = True \<rparr>)]"
    by (cases r; simp add: build_tarball_def Let_def del: add_files.simps; fastforce)+
  from add_files_members[OF a[unfolded r]] have
    "added tf = map (member_at (Directory es) nm) (manifest (Directory es))" by simp
  with lf p d show ?thesis by simp
qed

lemma ex_read1: "read_module_yaml_scalars [''a1'', ''module.yaml''] (ex_yaml ''1.0'') = Inr (ex_meta ''1.0'')"
  by code_simp

lemma ex_read2: "read_module_yaml_scalars [''a2'', ''module.yaml''] (ex_yaml ''2.0'') = Inr (ex_meta ''2.0'')"
  by code_simp

lemma list_two_files:
  "list_files md (Directory [(''prompt.md'', Regular s1 b1), (''module.yaml'', Regular s2 b2)])
     = Inr [''module.yaml'', ''prompt.md'']"
  by code_simp

lemma ex_list: "list_files md (ex_mod v) = Inr [''module.yaml'', ''prompt.md'']"
  by (simp add: ex_mod_def list_two_files)

lemma ex_parts: "path_parts ''module.yaml'' = [''module.yaml'']" "path_parts ''prompt.md'' = [''prompt.md'']"
  by code_simp+

lemma ex_add: "add_files ex_env md (ex_mod v) ''alpha'' [''module.yaml'', ''prompt.md''] \<lparr> inodes = Map.empty, added = [] \<rparr>
   = (\<lparr> inodes = [(11, 1) \<mapsto> ''alpha/prompt.md''], added = members (ex_archive v) \<rparr>, Inr ())"
  by (simp add: ex_parts Let_def gettarinfo_def ex_mod_def ex_stat_def ex_archive_def member_at_def member_def
      mk_tarinfo_def issym_def islnk_def open_rb_def addfile_def arc_def ex_env_def)

lemma ex_build:
  "build_tarball ex_env disk md (ex_mod v) ''alpha'' v
     = (disk @ [(out_name ''alpha'' v, ex_archive v)], Inr (out_name ''alpha'' v))"
proof -
  have flags: "mkdir_ok ex_env" "writable ex_env (out_name ''alpha'' v)" by (simp_all add: ex_env_def)
  show ?thesis
    by (simp add: build_tarball_def Let_def ex_list ex_add flags ex_archive_def del: add_files.simps)
qed

lemma ex_text: "read_text p (ex_mod v) = Inr (ex_yaml v)"
  by (simp add: read_text_def ex_mod_def)

lemma ex_merge:
  "merge_metadata ex_info (ex_meta v)
     = Inr (JString ''Legacy text'', JString ''unknown'', JArray [JString ''review''])"
  by (simp add: merge_metadata_def py_or_def ex_info_def)

lemma ex_meta_fields: "name (ex_meta v) = ''alpha''" "version (ex_meta v) = v"
  by (simp_all add: ex_meta_def)

lemma ex_alone1:
  "module_alone ex_env ex_args ex_legacy [] ''2026-01-01T00:00:00Z'' (''a1'', ex_mod ''1.0'')
     = (\<lparr> entries = [(''alpha'', ex_entry ''1.0'')],
          written = [(out_name ''alpha'' ''1.0'', ex_archive ''1.0'')] \<rparr>, Inr ())"
  by (simp add: module_alone_def process_module_def Let_def ex_text ex_read1 ex_build ex_list
      ex_legacy_def ex_merge read_back_def ex_entry_def ex_meta_fields)

lemma ex_alone2:
  "module_alone ex_env ex_args ex_legacy [] ''2026-01-01T00:00:00Z'' (''a2'', ex_mod ''2.0'')
     = (\<lparr> entries = [(''alpha'', ex_entry ''2.0'')],
          written = [(out_name ''alpha'' ''2.0'', ex_archive ''2.0'')] \<rparr>, Inr ())"
  by (simp add: module_alone_def process_module_def Let_def ex_text ex_read2 ex_build ex_list
      ex_legacy_def ex_merge read_back_def ex_entry_def ex_meta_fields)

lemma ex_sorted: "sort_key fst [(''a2'', x :: node), (''a1'', y)] = [(''a1'', y), (''a2'', x)]"
  by code_simp

lemma ex_main:
  "main ex_env ex_args ex_v1 ex_globbed
     = ([(out_name ''alpha'' ''1.0'', ex_archive ''1.0''), (out_name ''alpha'' ''2.0'', ex_archive ''2.0'')],
        Inr (make_registry ''2026-01-01T00:00:00Z'' (JObject []) [(''alpha'', ex_entry ''2.0'')]))"
proof -
  have a: "only ex_args = []" "strip (timestamp ex_args) = []" "now_iso ex_env = ''2026-01-01T00:00:00Z''"
    by (simp_all add: ex_args_def ex_env_def strip_def)
  show ?thesis
    by (simp add: main_def ex_v1_def a ex_globbed_def ex_sorted process_module_state Let_def
        ex_alone1 ex_alone2 set_all_def)
qed

lemma ex_run: "main ex_env ex_args ex_v1 ex_globbed = (ex_disk, Inr ex_registry)"
  by (simp add: ex_main ex_disk_def ex_registry_def)

lemma ex_modules: "modules ex_registry = [(''alpha'', ex_entry ''2.0'')]"
  by (simp add: ex_registry_def make_registry_def)

lemma ex_legacy_modules: "legacy_modules ex_v1 = ex_legacy"
  by (simp add: legacy_modules_def ex_v1_def)

lemma ex_legacy_fields:
  "legacy_field ex_legacy ''alpha'' ''description'' = JString ''Legacy text''"
  "legacy_field ex_legacy ''alpha'' ''author'' = JString []"
  "legacy_field ex_legacy ''alpha'' ''tags'' = JArray [JString ''review'']"
  by (simp_all add: legacy_field_def ex_legacy_def ex_info_def)

lemma ex_entry_metadata:
  "md_description (e_metadata (ex_entry v)) = JString ''Legacy text''"
  "md_description_zh (e_metadata (ex_entry v)) = JString ''Legacy text''"
  "md_author (e_metadata (ex_entry v)) = JString ''unknown''"
  "md_keywords (e_metadata (ex_entry v)) = JArray [JString ''review'']"
  by (simp_all add: ex_entry_def assemble_entry_def)

lemma ex_incomplete_given:
  "key_given ''name'' ex_incomplete" "key_given ''version'' ex_incomplete"
  "\<not> key_given ''tier'' ex_incomplete" "key_given ''responsibility'' ex_incomplete"
  by code_simp+

lemma ex_incomplete_missing: "filter (\<lambda>k. \<not> key_given k ex_incomplete) wanted = [''tier'']"
  by (simp add: wanted_def ex_incomplete_given)

lemma ex_yaml_assignments:
  "assignments (ex_yaml ''1.0'') = [(''name'', ''alpha''), (''version'', ''1.0''), (''tier'', ''exec''),
                                     (''responsibility'', ''review code'')]"
  by code_simp

lemma ex_broken_text:
  "read_text [''beta'', ''module.yaml''] (Directory [(''module.yaml'', Regular ex_stat ex_incomplete)])
     = Inr ex_incomplete"
  by (simp add: read_text_def)

lemma ex_broken_sorted: "sort_key fst ex_broken = [] @ hd ex_broken # []"
  by (simp add: ex_broken_def)


lemma map_of_rev_distinct:
  "distinct (map fst xs) \<Longrightarrow> (k, v) \<in> set xs \<Longrightarrow> map_of (rev xs) k = Some v"
  by (rule map_of_is_SomeI) (simp_all add: rev_map[symmetric])

lemma nested_tier_lines:
  "splitlines nested_tier_descriptor
     = [''name: alpha'', ''version: 1.0'', ''responsibility: review code'', ''limits:'', ''  tier: deep'']"
  by code_simp

lemma nested_tier_read:
  "read_module_yaml_scalars p nested_tier_descriptor
     = Inr \<lparr> name = ''alpha'', version = ''1.0'', tier = ''deep'', responsibility = ''review code'' \<rparr>"
  by code_simp










lemma arc_named:
  assumes "nm \<noteq> []" and "CHR ''/'' \<notin> set nm"
  shows "arc nm rel = nm @ ''/'' @ rel" and "top_level (arc nm rel) = nm"
proof -
  from assms obtain c cs where nm: "nm = c # cs" and c: "c \<noteq> CHR ''/''" by (cases nm) auto
  show a: "arc nm rel = nm @ ''/'' @ rel" by (simp add: arc_def nm c)
  show "top_level (arc nm rel) = nm"
    unfolding a top_level_def using split_slash_append[OF assms(2), of rel] by simp
qed

lemma build_tarball_names:
  assumes "build_tarball env disk md t nm ver = (disk', Inr p)"
  shows "\<exists>m arch. list_files md t = Inr m \<and> p = out_name nm ver \<and> disk' = disk @ [(p, arch)]
           \<and> gz_mtime arch = 0 \<and> finished arch
           \<and> entry_names arch = map (arc nm) m
           \<and> (\<forall>x\<in>set (members arch). normalised (fst x)
                  \<and> ti_type (fst x) \<in> {REGTYPE, FIFOTYPE, CHRTYPE, BLKTYPE})"
proof -
  from assms have ok: "mkdir_ok env" by (auto simp: build_tarball_def Let_def split: if_splits)
  from assms ok obtain m where m: "list_files md t = Inr m"
    by (cases "list_files md t") (auto simp: build_tarball_def Let_def)
  from assms ok m have w: "writable env (out_name nm ver)"
    by (auto simp: build_tarball_def Let_def split: if_splits)
  obtain tf r where a: "add_files env md t nm m \<lparr> inodes = Map.empty, added = [] \<rparr> = (tf, r)"
    by (cases "add_files env md t nm m \<lparr> inodes = Map.empty, added = [] \<rparr>")
  from assms ok m w a have r: "r = Inr ()" and p: "p = out_name nm ver"
    and d: "disk' = disk @ [(p, \<lparr> gz_mtime = 0, members = added tf, finished = True \<rparr>)]"
    by (cases r; simp add: build_tarball_def Let_def del: add_files.simps; fastforce)+
  from add_files_added[OF a] r obtain new where
    new: "added tf = new"
      "\<forall>x\<in>set new. normalised (fst x) \<and> ti_type (fst x) \<in> {REGTYPE, FIFOTYPE, CHRTYPE, BLKTYPE}"
      "map (\<lambda>x. ti_name (fst x)) new = map (arc nm) (take (length new) m)" "length new = length m"
    by auto
  show ?thesis
    using m p d new by (intro exI[of _ m] exI[of _ "\<lparr> gz_mtime = 0, members = added tf, finished = True \<rparr>"])
                       (simp add: entry_names_def)
qed

lemma ex_empty_name:
  "read_module_yaml_scalars p ex_yaml_unnamed
     = Inr \<lparr> name = [], version = ''1.0'', tier = ''exec'', responsibility = ''review code'' \<rparr>"
  unfolding ex_yaml_unnamed_def by code_simp













lemma ex_read_any: "read_module_yaml_scalars p (ex_yaml ''1.0'') = Inr (ex_meta ''1.0'')"
  by code_simp


lemma ex_run_only: "run_only ex_args = []" "run_ts ex_env ex_args = ''2026-01-01T00:00:00Z''"
  by (simp_all add: run_only_def run_ts_def ex_args_def ex_env_def strip_def)



















lemma ex_hard_reaches: "reaches_build ex_args ex_v1 (''h1'', ex_hard)"
  by (simp add: reaches_build_def read_text_def ex_hard_def ex_read_any ex_run_only
      ex_legacy_modules ex_legacy_def ex_meta_fields ex_merge)



lemma update_chunks_cong:
  "sha_update env1 = sha_update env2 \<Longrightarrow> update_chunks env1 h rest = update_chunks env2 h rest"
proof (induction env1 h rest rule: update_chunks.induct)
  case (1 env h rest)
  show ?case
  proof (cases "take (1024 * 1024) rest = []")
    case True
    then show ?thesis
      by (subst update_chunks.simps[of env h rest], subst update_chunks.simps[of env2 h rest]) simp
  next
    case False
    from "1.IH"[OF refl False "1.prems"] "1.prems" False show ?thesis
      by (subst update_chunks.simps[of env h rest], subst update_chunks.simps[of env2 h rest]) simp
  qed
qed

lemma sha256_file_cong:
  "same_codec env1 env2 \<Longrightarrow> sha256_file env1 content = sha256_file env2 content"
  using update_chunks_cong[of env1 env2] by (simp add: same_codec_def sha256_file_def)

lemma list_two_files_sorted:
  "list_files md (Directory [(''module.yaml'', Regular s1 b1), (''prompt.md'', Regular s2 b2)])
     = Inr [''module.yaml'', ''prompt.md'']"
  by code_simp

lemma ex_ci_build:
  "build_tarball ex_env_ci disk md ex_mod_ci ''alpha'' ''1.0''
     = (disk @ [(out_name ''alpha'' ''1.0'', ex_archive ''1.0'')], Inr (out_name ''alpha'' ''1.0''))"
proof -
  have flags: "mkdir_ok ex_env_ci" "writable ex_env_ci (out_name ''alpha'' ''1.0'')"
    by (simp_all add: ex_env_ci_def)
  have l: "list_files md ex_mod_ci = Inr [''module.yaml'', ''prompt.md'']"
    by (simp add: ex_mod_ci_def list_two_files_sorted)
  have add: "add_files ex_env_ci md ex_mod_ci ''alpha'' [''module.yaml'', ''prompt.md'']
                \<lparr> inodes = Map.empty, added = [] \<rparr>
       = (\<lparr> inodes = [(77, 3) \<mapsto> ''alpha/prompt.md''], added = members (ex_archive ''1.0'') \<rparr>, Inr ())"
    by (simp add: ex_parts Let_def gettarinfo_def ex_mod_ci_def ex_stat_ci_def ex_mod_def ex_stat_def
        ex_archive_def member_at_def member_def mk_tarinfo_def issym_def islnk_def open_rb_def
        addfile_def arc_def ex_env_ci_def)
  show ?thesis
    by (simp add: build_tarball_def Let_def l add flags ex_archive_def del: add_files.simps)
qed

lemma ex_exec_build:
  "build_tarball ex_env disk md ex_mod_exec ''alpha'' ''1.0''
     = (disk @ [(out_name ''alpha'' ''1.0'', ex_exec_archive)], Inr (out_name ''alpha'' ''1.0''))"
proof -
  have flags: "mkdir_ok ex_env" "writable ex_env (out_name ''alpha'' ''1.0'')"
    by (simp_all add: ex_env_def)
  have l: "list_files md ex_mod_exec = Inr [''module.yaml'', ''prompt.md'']"
    by (simp add: ex_mod_exec_def list_two_files)
  have add: "add_files ex_env md ex_mod_exec ''alpha'' [''module.yaml'', ''prompt.md'']
                \<lparr> inodes = Map.empty, added = [] \<rparr>
       = (\<lparr> inodes = [(11, 1) \<mapsto> ''alpha/prompt.md''], added = members ex_exec_archive \<rparr>, Inr ())"
    by (simp add: ex_parts Let_def gettarinfo_def ex_mod_exec_def ex_stat_exec_def ex_stat_def
        ex_exec_archive_def member_at_def member_def mk_tarinfo_def issym_def islnk_def open_rb_def
        addfile_def arc_def ex_env_def)
  show ?thesis
    by (simp add: build_tarball_def Let_def l add flags ex_exec_archive_def del: add_files.simps)
qed

lemma ex_mod_wf: "wf_node (ex_mod v)" "wf_node ex_mod_ci"
  by (simp_all add: ex_mod_def ex_mod_ci_def valid_name_def)

lemma ex_payload: "payload (ex_mod ''1.0'') = payload ex_mod_ci"
  by (simp add: payload_def ex_mod_def ex_mod_ci_def packaged_def file_facts_def ex_stat_def
      ex_stat_ci_def add_mset_commute)

lemma ex_codec: "same_codec ex_env ex_env_ci"
  by (simp add: same_codec_def ex_env_def ex_env_ci_def)

lemma ex_modes:
  "map (\<lambda>x. ti_mode (fst x)) (members (ex_archive ''1.0'')) = [420, 420]"
  "map (\<lambda>x. ti_mode (fst x)) (members ex_exec_archive) = [420, 493]"
  by (simp_all add: ex_archive_def ex_exec_archive_def member_at_def ex_parts ex_mod_def ex_mod_exec_def
      member_def ex_stat_def ex_stat_exec_def)

lemma ex_exec_same_files:
  "map (\<lambda>pc. (fst pc, open_rb ex_mod_exec (fst pc))) (leaves [] ex_mod_exec)
     = map (\<lambda>pc. (fst pc, open_rb (ex_mod ''1.0'') (fst pc))) (leaves [] (ex_mod ''1.0''))"
  by (simp add: ex_mod_exec_def ex_mod_def open_rb_def)

lemma ex_dotdot_name:
  "read_module_yaml_scalars p ex_yaml_dotdot
     = Inr \<lparr> name = ''..'', version = ''1.0'', tier = ''exec'', responsibility = ''review code'' \<rparr>"
  unfolding ex_yaml_dotdot_def by code_simp

lemma ex_unnamed_build:
  "build_tarball ex_env disk md ex_mod_unnamed [] ''1.0''
     = (disk @ [(''-1.0.tar.gz'', ex_unnamed_archive)], Inr ''-1.0.tar.gz'')"
proof -
  have flags: "mkdir_ok ex_env" "writable ex_env f" for f by (simp_all add: ex_env_def)
  have l: "list_files md ex_mod_unnamed = Inr [''module.yaml'', ''prompt.md'']"
    by (simp add: ex_mod_unnamed_def list_two_files)
  have add: "add_files ex_env md ex_mod_unnamed [] [''module.yaml'', ''prompt.md'']
                \<lparr> inodes = Map.empty, added = [] \<rparr>
       = (\<lparr> inodes = [(11, 1) \<mapsto> ''prompt.md''], added = members ex_unnamed_archive \<rparr>, Inr ())"
    by (simp add: ex_parts Let_def gettarinfo_def ex_mod_unnamed_def ex_stat_def
        ex_unnamed_archive_def member_at_def member_def mk_tarinfo_def issym_def islnk_def open_rb_def
        addfile_def arc_def ex_env_def)
  show ?thesis
    by (simp add: build_tarball_def Let_def l add flags ex_unnamed_archive_def out_name_def
        del: add_files.simps)
qed

lemma ex_dotdot_build:
  "build_tarball ex_env disk md ex_mod_dotdot ''..'' ''1.0''
     = (disk @ [(''..-1.0.tar.gz'', ex_dotdot_archive)], Inr ''..-1.0.tar.gz'')"
proof -
  have flags: "mkdir_ok ex_env" "writable ex_env f" for f by (simp_all add: ex_env_def)
  have l: "list_files md ex_mod_dotdot = Inr [''module.yaml'', ''prompt.md'']"
    by (simp add: ex_mod_dotdot_def list_two_files)
  have add: "add_files ex_env md ex_mod_dotdot ''..'' [''module.yaml'', ''prompt.md'']
                \<lparr> inodes = Map.empty, added = [] \<rparr>
       = (\<lparr> inodes = [(11, 1) \<mapsto> ''../prompt.md''], added = members ex_dotdot_archive \<rparr>, Inr ())"
    by (simp add: ex_parts Let_def gettarinfo_def ex_mod_dotdot_def ex_stat_def
        ex_dotdot_archive_def member_at_def member_def mk_tarinfo_def issym_def islnk_def open_rb_def
        addfile_def arc_def ex_env_def)
  show ?thesis
    by (simp add: build_tarball_def Let_def l add flags ex_dotdot_archive_def out_name_def
        del: add_files.simps)
qed

lemma ex_rootless_names:
  "entry_names ex_unnamed_archive = [''module.yaml'', ''prompt.md'']"
  "entry_names ex_dotdot_archive = [''../module.yaml'', ''../prompt.md'']"
  by (simp_all add: entry_names_def ex_unnamed_archive_def ex_dotdot_archive_def member_at_def ex_parts
      ex_mod_unnamed_def ex_mod_dotdot_def member_def arc_def)

lemma ex_unnamed_run:
  "fst (main ex_env ex_args ex_v1 [(''a1'', ex_mod_unnamed)]) = [(''-1.0.tar.gz'', ex_unnamed_archive)]"
proof -
  have rt: "read_text [''a1'', ''module.yaml''] ex_mod_unnamed = Inr ex_yaml_unnamed"
    by (simp add: read_text_def ex_mod_unnamed_def)
  have l: "list_files md ex_mod_unnamed = Inr [''module.yaml'', ''prompt.md'']" for md
    by (simp add: ex_mod_unnamed_def list_two_files)
  have al: "written (fst (alone ex_env ex_args ex_v1 (''a1'', ex_mod_unnamed)))
              = [(''-1.0.tar.gz'', ex_unnamed_archive)]
          \<and> snd (alone ex_env ex_args ex_v1 (''a1'', ex_mod_unnamed)) = Inr ()"
    using ex_unnamed_build[of "[]" "[''a1'']"]
    by (simp add: alone_def module_alone_def process_module_def Let_def rt ex_empty_name ex_run_only
        ex_legacy_modules ex_legacy_def merge_metadata_def l read_back_def)
  obtain reg where "main ex_env ex_args ex_v1 [(''a1'', ex_mod_unnamed)]
      = (written (fst (alone ex_env ex_args ex_v1 (''a1'', ex_mod_unnamed))), reg)"
    using al
    by (simp add: main_unfold ex_v1_def ex_run_only process_module_state Let_def alone_def
        ex_legacy_modules[unfolded ex_v1_def] split: sum.splits prod.splits)
  then show ?thesis using al by simp
qed










lemma list_special_shape:
  "list_files md (Directory [(''module.yaml'', Regular s b), (''pipe'', Special k st rd)])
     = Inr [''module.yaml'', ''pipe'']"
  "list_files md (Directory [(''module.yaml'', Regular s b), (''null'', Special k st rd)])
     = Inr [''module.yaml'', ''null'']"
  by code_simp+

lemma ex_special_list:
  "list_files md ex_pipe = Inr [''module.yaml'', ''pipe'']"
  "list_files md ex_dev = Inr [''module.yaml'', ''null'']"
  by (simp_all add: ex_pipe_def ex_dev_def list_special_shape)

lemma ex_special_parts: "path_parts ''pipe'' = [''pipe'']" "path_parts ''null'' = [''null'']"
  by code_simp+

lemma ex_dev_build:
  "build_tarball ex_env disk md ex_dev ''alpha'' ''1.0''
     = (disk @ [(out_name ''alpha'' ''1.0'', ex_dev_archive)], Inr (out_name ''alpha'' ''1.0''))"
proof -
  have flags: "mkdir_ok ex_env" "writable ex_env f" for f by (simp_all add: ex_env_def)
  have add: "add_files ex_env md ex_dev ''alpha'' [''module.yaml'', ''null'']
                \<lparr> inodes = Map.empty, added = [] \<rparr>
       = (\<lparr> inodes = [(11, 1) \<mapsto> ''alpha/module.yaml''], added = members ex_dev_archive \<rparr>, Inr ())"
    by (simp add: ex_parts ex_special_parts Let_def gettarinfo_def ex_dev_def ex_stat_def
        ex_dev_archive_def member_at_def member_def special_member_def mk_tarinfo_def issym_def
        islnk_def open_rb_def addfile_def arc_def ex_env_def)
  show ?thesis
    by (simp add: build_tarball_def Let_def ex_special_list add flags ex_dev_archive_def
        del: add_files.simps)
qed

lemma ex_pipe_build:
  "build_tarball ex_env disk md ex_pipe ''alpha'' ''1.0''
     = (disk @ [(out_name ''alpha'' ''1.0'', ex_pipe_partial)], Inl (NeverReturns [''pipe'']))"
proof -
  have flags: "mkdir_ok ex_env" "writable ex_env f" for f by (simp_all add: ex_env_def)
  have add: "add_files ex_env md ex_pipe ''alpha'' [''module.yaml'', ''pipe'']
                \<lparr> inodes = Map.empty, added = [] \<rparr>
       = (\<lparr> inodes = [(11, 1) \<mapsto> ''alpha/module.yaml''], added = members ex_pipe_partial \<rparr>,
          Inl (NeverReturns [''pipe'']))"
    by (simp add: ex_parts ex_special_parts Let_def gettarinfo_def ex_pipe_def ex_stat_def
        ex_pipe_partial_def member_at_def member_def special_member_def mk_tarinfo_def issym_def
        islnk_def open_rb_def addfile_def arc_def ex_env_def)
  show ?thesis
    by (simp add: build_tarball_def Let_def ex_special_list add flags ex_pipe_partial_def
        del: add_files.simps)
qed

lemma ex_dev_types:
  "map (\<lambda>x. (ti_name (fst x), ti_type (fst x))) (members ex_dev_archive)
     = [(''alpha/module.yaml'', REGTYPE), (''alpha/null'', CHRTYPE)]"
  by (simp add: ex_dev_archive_def member_at_def ex_parts ex_special_parts ex_dev_def member_def
      special_member_def arc_def)

lemma ex_dev_alone:
  "module_alone ex_env ex_args ex_legacy [] ''2026-01-01T00:00:00Z'' (''a1'', ex_dev)
     = (\<lparr> entries = [(''alpha'', ex_dev_entry)],
          written = [(out_name ''alpha'' ''1.0'', ex_dev_archive)] \<rparr>, Inr ())"
proof -
  have rt: "read_text p ex_dev = Inr (ex_yaml ''1.0'')" for p
    by (simp add: read_text_def ex_dev_def)
  show ?thesis
    by (simp add: module_alone_def process_module_def Let_def rt ex_read1 ex_dev_build ex_special_list
        ex_legacy_def ex_merge read_back_def ex_dev_entry_def ex_meta_fields)
qed

lemma ex_dev_run:
  "main ex_env ex_args ex_v1 [(''a1'', ex_dev)]
     = ([(out_name ''alpha'' ''1.0'', ex_dev_archive)],
        Inr (make_registry ''2026-01-01T00:00:00Z'' (JObject []) [(''alpha'', ex_dev_entry)]))"
proof -
  have a: "only ex_args = []" "strip (timestamp ex_args) = []" "now_iso ex_env = ''2026-01-01T00:00:00Z''"
    by (simp_all add: ex_args_def ex_env_def strip_def)
  show ?thesis
    by (simp add: main_def ex_v1_def a process_module_state Let_def ex_dev_alone set_all_def)
qed

text \<open>
  C1, as the code has it. Every archive that \<open>build_tarball\<close> completes has container
  timestamp 0 and, in the order of the sorted manifest, one entry per path of the manifest,
  with uid and gid 0, user and group name \<^verbatim>\<open>root\<close> and mtime 0; an entry is a regular
  file, or a pipe or a device when the module holds one, and all are regular files when
  every packaged entry of the module is. The archive is a function of the module name, the
  version and, for each packaged file, its relative path, its file type, its mode bits, its
  device numbers and (for a regular file) its contents: two successful builds of module
  directories (proper file names, each once per directory) that agree on these produce the
  same archive under the same file name, whatever the clock, the user database, the owners,
  times and inodes of the files, the place of the module directory and the order of the
  directory listings; with the same encoder the files on disk are byte-identical, and with
  the same hash their checksums are equal.
\<close>

theorem archive_is_function_of_payload:
  assumes "wf_node (Directory es1)" and "wf_node (Directory es2)"
    and "build_tarball env1 disk1 md1 (Directory es1) nm ver = (disk1', Inr p1)"
    and "build_tarball env2 disk2 md2 (Directory es2) nm ver = (disk2', Inr p2)"
    and "payload (Directory es1) = payload (Directory es2)"
  shows "\<exists>arch. p1 = out_name nm ver \<and> p2 = p1
           \<and> disk1' = disk1 @ [(p1, arch)] \<and> disk2' = disk2 @ [(p1, arch)]
           \<and> gz_mtime arch = 0 \<and> finished arch
           \<and> (\<forall>x\<in>set (members arch). normalised (fst x)
                  \<and> ti_type (fst x) \<in> {REGTYPE, FIFOTYPE, CHRTYPE, BLKTYPE})
           \<and> (regular_only (Directory es1) \<longrightarrow>
                 (\<forall>x\<in>set (members arch). ti_type (fst x) = REGTYPE))
           \<and> entry_names arch = map (arc nm) (manifest (Directory es1))
           \<and> sorted (manifest (Directory es1))
           \<and> members arch = map (packed nm) (sort_key fst (map file_facts (filter packaged (leaves [] (Directory es1)))))
           \<and> (encode env1 = encode env2 \<longrightarrow>
                 read_back env1 disk1' p1 = read_back env2 disk2' p2)
           \<and> (same_codec env1 env2 \<longrightarrow>
                 sha256_file env1 (encode env1 p1 arch) = sha256_file env2 (encode env2 p2 arch))
           \<and> (\<forall>t'. reorder (Directory es1) t' \<longrightarrow> payload t' = payload (Directory es1))"
proof -
  let ?arch = "\<lparr> gz_mtime = 0,
                 members = map (member_at (Directory es1) nm) (manifest (Directory es1)),
                 finished = True \<rparr>"
  from build_tarball_success[OF assms(1,3)] have
    s1: "p1 = out_name nm ver" "disk1' = disk1 @ [(p1, ?arch)]" by simp_all
  from build_tarball_success[OF assms(2,4)] have
    s2: "p2 = out_name nm ver"
        "disk2' = disk2 @ [(p2, \<lparr> gz_mtime = 0,
                 members = map (member_at (Directory es2) nm) (manifest (Directory es2)),
                 finished = True \<rparr>)]" by simp_all
  from members_payload[OF assms(1,2,5)] s2 s1 have d2: "disk2' = disk2 @ [(p1, ?arch)]" by simp
  from build_tarball_names[OF assms(3)] s1 obtain m where
    n: "list_files md1 (Directory es1) = Inr m" "entry_names ?arch = map (arc nm) m"
       "\<forall>x\<in>set (members ?arch). normalised (fst x)
            \<and> ti_type (fst x) \<in> {REGTYPE, FIFOTYPE, CHRTYPE, BLKTYPE}"
    by auto
  from build_tarball_success[OF assms(1,3)] n(1) have m: "m = manifest (Directory es1)" by simp
  have srt: "sorted (manifest (Directory es1))" by (simp add: manifest_def)
  have rb: "encode env1 = encode env2 \<longrightarrow> read_back env1 disk1' p1 = read_back env2 disk2' p2"
    using s1 s2 d2 by (simp add: read_back_last)
  have sh: "same_codec env1 env2 \<longrightarrow>
              sha256_file env1 (encode env1 p1 ?arch) = sha256_file env2 (encode env2 p2 ?arch)"
    using s1 s2 sha256_file_cong[of env1 env2] by (simp add: same_codec_def)
  have ro: "\<forall>t'. reorder (Directory es1) t' \<longrightarrow> payload t' = payload (Directory es1)"
    using reorder_payload by metis
  have pk: "members ?arch = map (packed nm) (sort_key fst (map file_facts (filter packaged (leaves [] (Directory es1)))))"
  proof -
    let ?fs = "sort_key fst (map file_facts (filter packaged (leaves [] (Directory es1))))"
    have k: "map fst (map file_facts (filter packaged (leaves [] (Directory es1))))
               = kept (leaves [] (Directory es1))"
      by (simp add: kept_def file_facts_def)
    have "sort (map fst (map file_facts (filter packaged (leaves [] (Directory es1))))) = map fst ?fs"
      by (rule properties_for_sort) (simp_all add: sorted_sort_key del: map_map)
    then have mf: "manifest (Directory es1) = map fst ?fs" by (simp only: k manifest_def)
    have "\<forall>f\<in>set ?fs. member_at (Directory es1) nm (fst f) = packed nm f"
    proof
      fix f assume "f \<in> set ?fs"
      then have "f \<in># payload (Directory es1)" by (simp add: payload_def)
      then show "member_at (Directory es1) nm (fst f) = packed nm f"
        by (rule member_at_payload[OF assms(1)])
    qed
    then have "map (member_at (Directory es1) nm) (map fst ?fs) = map (packed nm) ?fs" by simp
    then show ?thesis by (simp only: mf archive.simps)
  qed
  define arch where "arch = ?arch"
  have g: "gz_mtime arch = 0" "finished arch" by (simp_all add: arch_def)
  have c1: "p1 = out_name nm ver \<and> p2 = p1 \<and> disk1' = disk1 @ [(p1, arch)] \<and> disk2' = disk2 @ [(p1, arch)]"
    using s1 s2 d2 by (simp add: arch_def)
  have c2: "\<forall>x\<in>set (members arch). normalised (fst x)
              \<and> ti_type (fst x) \<in> {REGTYPE, FIFOTYPE, CHRTYPE, BLKTYPE}"
    using n(3) by (simp only: arch_def)
  have c2r: "regular_only (Directory es1) \<longrightarrow> (\<forall>x\<in>set (members arch). ti_type (fst x) = REGTYPE)"
  proof (intro impI ballI)
    fix x assume ro: "regular_only (Directory es1)" and "x \<in> set (members arch)"
    then obtain rel where rel: "rel \<in> set (manifest (Directory es1))"
      and x: "x = member_at (Directory es1) nm rel" by (auto simp: arch_def)
    from manifest_regular[OF assms(1) ro rel] obtain st b where
      "lookup (Directory es1) (path_parts rel) = Some (Regular st b)" by blast
    then show "ti_type (fst x) = REGTYPE" unfolding x by (simp add: member_at_def member_def)
  qed
  have c3: "entry_names arch = map (arc nm) (manifest (Directory es1))"
    using n(2) m by (simp only: arch_def)
  have c4: "members arch = map (packed nm) (sort_key fst (map file_facts (filter packaged (leaves [] (Directory es1)))))"
    using pk by (simp only: arch_def)
  have c5: "same_codec env1 env2 \<longrightarrow>
              sha256_file env1 (encode env1 p1 arch) = sha256_file env2 (encode env2 p2 arch)"
    using sh by (simp only: arch_def)
  from c1 g c2 c2r c3 srt c4 rb c5 ro show ?thesis by blast
qed

theorem archive_is_function_of_payload_witness:
  "wf_node (ex_mod ''1.0'') \<and> wf_node ex_mod_ci \<and> regular_only (ex_mod ''1.0'')
   \<and> payload (ex_mod ''1.0'') = payload ex_mod_ci
   \<and> build_tarball ex_env [] [''a1''] (ex_mod ''1.0'') ''alpha'' ''1.0''
       = ([(out_name ''alpha'' ''1.0'', ex_archive ''1.0'')], Inr (out_name ''alpha'' ''1.0''))
   \<and> build_tarball ex_env_ci [] [''ci'', ''a1''] ex_mod_ci ''alpha'' ''1.0''
       = ([(out_name ''alpha'' ''1.0'', ex_archive ''1.0'')], Inr (out_name ''alpha'' ''1.0''))
   \<and> now_iso ex_env \<noteq> now_iso ex_env_ci
   \<and> gz_mtime (ex_archive ''1.0'') = 0
   \<and> list_all (\<lambda>x. ti_type (fst x) = REGTYPE) (members (ex_archive ''1.0''))
   \<and> entry_names (ex_archive ''1.0'') = map (arc ''alpha'') (manifest (ex_mod ''1.0''))
   \<and> read_back ex_env [(out_name ''alpha'' ''1.0'', ex_archive ''1.0'')] (out_name ''alpha'' ''1.0'')
       = read_back ex_env_ci [(out_name ''alpha'' ''1.0'', ex_archive ''1.0'')] (out_name ''alpha'' ''1.0'')
   \<and> sha256_file ex_env (encode ex_env (out_name ''alpha'' ''1.0'') (ex_archive ''1.0''))
       = sha256_file ex_env_ci (encode ex_env_ci (out_name ''alpha'' ''1.0'') (ex_archive ''1.0''))"
proof -
  have b1: "build_tarball ex_env [] [''a1''] (ex_mod ''1.0'') ''alpha'' ''1.0''
       = ([(out_name ''alpha'' ''1.0'', ex_archive ''1.0'')], Inr (out_name ''alpha'' ''1.0''))"
    using ex_build[of "[]" "[''a1'']" "''1.0''"] by simp
  have b2: "build_tarball ex_env_ci [] [''ci'', ''a1''] ex_mod_ci ''alpha'' ''1.0''
       = ([(out_name ''alpha'' ''1.0'', ex_archive ''1.0'')], Inr (out_name ''alpha'' ''1.0''))"
    using ex_ci_build[of "[]" "[''ci'', ''a1'']"] by simp
  note t = archive_is_function_of_payload[OF ex_mod_wf(1)[of "''1.0''", unfolded ex_mod_def]
      ex_mod_wf(2)[unfolded ex_mod_ci_def] b1[unfolded ex_mod_def] b2[unfolded ex_mod_ci_def]
      ex_payload[unfolded ex_mod_def ex_mod_ci_def], folded ex_mod_def ex_mod_ci_def]
  have e: "encode ex_env = encode ex_env_ci" "now_iso ex_env \<noteq> now_iso ex_env_ci"
    by (simp_all add: ex_env_def ex_env_ci_def)
  have ro: "regular_only (ex_mod ''1.0'')" by (simp add: regular_only_def ex_mod_def packaged_def)
  from t e(1) ex_codec ro have
    "gz_mtime (ex_archive ''1.0'') = 0
     \<and> list_all (\<lambda>x. ti_type (fst x) = REGTYPE) (members (ex_archive ''1.0''))
     \<and> entry_names (ex_archive ''1.0'') = map (arc ''alpha'') (manifest (ex_mod ''1.0''))
     \<and> read_back ex_env [(out_name ''alpha'' ''1.0'', ex_archive ''1.0'')] (out_name ''alpha'' ''1.0'')
       = read_back ex_env_ci [(out_name ''alpha'' ''1.0'', ex_archive ''1.0'')] (out_name ''alpha'' ''1.0'')
     \<and> sha256_file ex_env (encode ex_env (out_name ''alpha'' ''1.0'') (ex_archive ''1.0''))
       = sha256_file ex_env_ci (encode ex_env_ci (out_name ''alpha'' ''1.0'') (ex_archive ''1.0''))"
    by (auto simp: list_all_iff)
  with ex_mod_wf ex_payload b1 b2 e(2) ro show ?thesis by simp
qed

text \<open>
  C1 as stated fails in its last clause: the permission bits of a file are copied into its
  archive entry, so two module directories with the same relative paths and the same file
  contents, one of them with an executable \<^verbatim>\<open>prompt.md\<close>, give different archives.
\<close>

theorem mode_bits_change_archive:
  "map (\<lambda>pc. (fst pc, open_rb ex_mod_exec (fst pc))) (leaves [] ex_mod_exec)
     = map (\<lambda>pc. (fst pc, open_rb (ex_mod ''1.0'') (fst pc))) (leaves [] (ex_mod ''1.0''))
   \<and> build_tarball ex_env [] [''a1''] (ex_mod ''1.0'') ''alpha'' ''1.0''
       = ([(out_name ''alpha'' ''1.0'', ex_archive ''1.0'')], Inr (out_name ''alpha'' ''1.0''))
   \<and> build_tarball ex_env [] [''a1''] ex_mod_exec ''alpha'' ''1.0''
       = ([(out_name ''alpha'' ''1.0'', ex_exec_archive)], Inr (out_name ''alpha'' ''1.0''))
   \<and> map (\<lambda>x. ti_mode (fst x)) (members (ex_archive ''1.0'')) = [420, 420]
   \<and> map (\<lambda>x. ti_mode (fst x)) (members ex_exec_archive) = [420, 493]
   \<and> ex_exec_archive \<noteq> ex_archive ''1.0''"
proof -
  have "map (\<lambda>x. ti_mode (fst x)) (members ex_exec_archive)
          \<noteq> map (\<lambda>x. ti_mode (fst x)) (members (ex_archive ''1.0''))"
    by (simp add: ex_modes)
  then have "members ex_exec_archive \<noteq> members (ex_archive ''1.0'')" by auto
  then have "ex_exec_archive \<noteq> ex_archive ''1.0''" by auto
  then show ?thesis
    using ex_build[of "[]" "[''a1'']" "''1.0''"] ex_exec_build[of "[]" "[''a1'']"]
    by (simp add: ex_modes ex_exec_same_files)
qed







text \<open>
  C4 fails on the code. The module name is taken from the descriptor as it is read. A
  descriptor that declares the empty name (\<^verbatim>\<open>name: ""\<close>) gives the archive names
  \<^verbatim>\<open>/<relative path>\<close>, whose leading slash \<^verbatim>\<open>gettarinfo\<close> strips: the run writes
  \<^verbatim>\<open>-1.0.tar.gz\<close> with the module's files as sibling top-level entries and no root
  directory. A descriptor that declares the name \<^verbatim>\<open>..\<close> gives entries
  \<^verbatim>\<open>../<relative path>\<close>, which unpack outside the directory of extraction. Both break
  the single root directory named as the module that the claim and the script's own header
  promise.
\<close>

theorem unnamed_module_has_sibling_entries:
  "name (projr (read_module_yaml_scalars [''a1'', ''module.yaml''] ex_yaml_unnamed)) = []
   \<and> build_tarball ex_env [] [''a1''] ex_mod_unnamed [] ''1.0''
      = ([(''-1.0.tar.gz'', ex_unnamed_archive)], Inr ''-1.0.tar.gz'')
   \<and> fst (main ex_env ex_args ex_v1 [(''a1'', ex_mod_unnamed)]) = [(''-1.0.tar.gz'', ex_unnamed_archive)]
   \<and> entry_names ex_unnamed_archive = [''module.yaml'', ''prompt.md'']
   \<and> map top_level (entry_names ex_unnamed_archive) = [''module.yaml'', ''prompt.md'']
   \<and> name (projr (read_module_yaml_scalars [''a2'', ''module.yaml''] ex_yaml_dotdot)) = ''..''
   \<and> build_tarball ex_env [] [''a2''] ex_mod_dotdot ''..'' ''1.0''
      = ([(''..-1.0.tar.gz'', ex_dotdot_archive)], Inr ''..-1.0.tar.gz'')
   \<and> entry_names ex_dotdot_archive = [''../module.yaml'', ''../prompt.md'']"
proof -
  have "top_level ''module.yaml'' = ''module.yaml''" "top_level ''prompt.md'' = ''prompt.md''"
    by (simp_all add: top_level_def)
  then show ?thesis
    using ex_unnamed_build[of "[]" "[''a1'']"] ex_dotdot_build[of "[]" "[''a2'']"]
    by (simp add: ex_rootless_names ex_empty_name ex_dotdot_name ex_unnamed_run)
qed

text \<open>
  C5 fails on the code. \<open>list_files\<close> tests an entry only for being a symbolic link: every
  other entry that \<^verbatim>\<open>os.walk\<close> lists among the files goes into the manifest, a regular
  file or not. A module directory that holds a named pipe has the pipe in its manifest, and
  its build never returns from opening it. One that holds a character device has the device
  in its manifest, in the \<open>files\<close> of its index entry and, as a device entry, in its
  archive, where the claim, and the comment of \<open>build_tarball\<close> (regular files only), have
  regular files only.
\<close>

theorem manifest_lists_pipe_and_device:
  "lookup ex_pipe [''pipe''] = Some (Special Fifo ex_stat Blocks)
   \<and> list_files [''a1''] ex_pipe = Inr [''module.yaml'', ''pipe'']
   \<and> build_tarball ex_env [] [''a1''] ex_pipe ''alpha'' ''1.0''
       = ([(out_name ''alpha'' ''1.0'', ex_pipe_partial)], Inl (NeverReturns [''pipe'']))
   \<and> lookup ex_dev [''null''] = Some (Special (CharDevice 1 3) ex_stat (Opens []))
   \<and> list_files [''a1''] ex_dev = Inr [''module.yaml'', ''null'']
   \<and> main ex_env ex_args ex_v1 [(''a1'', ex_dev)]
       = ([(out_name ''alpha'' ''1.0'', ex_dev_archive)],
          Inr (make_registry ''2026-01-01T00:00:00Z'' (JObject []) [(''alpha'', ex_dev_entry)]))
   \<and> files (e_distribution ex_dev_entry) = [''module.yaml'', ''null'']
   \<and> map (\<lambda>x. (ti_name (fst x), ti_type (fst x))) (members ex_dev_archive)
       = [(''alpha/module.yaml'', REGTYPE), (''alpha/null'', CHRTYPE)]"
proof -
  have "lookup ex_pipe [''pipe''] = Some (Special Fifo ex_stat Blocks)"
    "lookup ex_dev [''null''] = Some (Special (CharDevice 1 3) ex_stat (Opens []))"
    "files (e_distribution ex_dev_entry) = [''module.yaml'', ''null'']"
    by (simp_all add: ex_pipe_def ex_dev_def ex_dev_entry_def assemble_entry_def)
  then show ?thesis
    using ex_pipe_build[of "[]" "[''a1'']"]
    by (simp add: ex_special_list ex_dev_run ex_dev_types)
qed




text \<open>
  C7, as the code has it: every entry of the written index stems from a module directory
  whose descriptor carries the entry's name; its description is the legacy entry's
  \<open>description\<close> when that field is present and true in Python's sense (not empty, not
  null), and the descriptor's responsibility text otherwise, also when the legacy index has
  no entry of that name; the same value is stored as \<open>description_zh\<close>; author and
  keywords are the legacy \<open>author\<close> and \<open>tags\<close> under the same condition, and
  \<open>unknown\<close> and the empty list otherwise.
\<close>

theorem metadata_merge_precedence:
  assumes "main env a v1 globbed = (disk, Inr reg)" and "(n, e) \<in> set (modules reg)"
  shows "\<exists>dname mod_dir text meta.
           (dname, mod_dir) \<in> set globbed
         \<and> read_text [dname, ''module.yaml''] mod_dir = Inr text
         \<and> read_module_yaml_scalars [dname, ''module.yaml''] text = Inr meta
         \<and> name meta = n
         \<and> md_description (e_metadata e)
             = (if truthy (legacy_field (legacy_modules v1) n ''description'')
                then legacy_field (legacy_modules v1) n ''description''
                else JString (responsibility meta))
         \<and> md_description_zh (e_metadata e) = md_description (e_metadata e)
         \<and> md_author (e_metadata e)
             = (if truthy (legacy_field (legacy_modules v1) n ''author'')
                then legacy_field (legacy_modules v1) n ''author''
                else JString ''unknown'')
         \<and> md_keywords (e_metadata e)
             = (if truthy (legacy_field (legacy_modules v1) n ''tags'')
                then legacy_field (legacy_modules v1) n ''tags''
                else JArray [])"
proof -
  note ok = main_ok[OF assms(1)]
  from assms(2) ok(3) have "(n, e) \<in> set (concat (map (\<lambda>m. entries (fst (alone env a v1 m))) (sort_key fst globbed)))"
    using set_set_all[of "concat (map (\<lambda>m. entries (fst (alone env a v1 m))) (sort_key fst globbed))" "[]"]
    by auto
  then obtain m where m: "m \<in> set globbed" "(n, e) \<in> set (entries (fst (alone env a v1 m)))"
    by auto
  from ok(2) m(1) have s: "snd (alone env a v1 m) = Inr ()" by simp
  from alone_entry[OF s m(2)] obtain body meta v1_info d au k arch fl where
    f: "read_text [fst m, ''module.yaml''] (snd m) = Inr body"
       "read_module_yaml_scalars [fst m, ''module.yaml''] body = Inr meta"
       "name meta = n"
       "py_get (legacy_modules v1) n (JObject []) = Inr v1_info"
       "merge_metadata v1_info meta = Inr (d, au, k)"
       "e = assemble_entry a (run_ts env a) meta d au k (out_name n (version meta))
                  (sha256_file env (encode env (out_name n (version meta)) arch))
                  (length (encode env (out_name n (version meta)) arch)) fl"
    by blast
  note mm = merge_metadata_legacy[OF f(4) f(5)]
  have "(fst m, snd m) \<in> set globbed" using m(1) by simp
  moreover have "md_description (e_metadata e) = d" "md_description_zh (e_metadata e) = d"
    "md_author (e_metadata e) = au" "md_keywords (e_metadata e) = k"
    using f(6) by (simp_all add: assemble_entry_def)
  ultimately show ?thesis using f(1,2,3) mm
    by (intro exI[of _ "fst m"] exI[of _ "snd m"] exI[of _ body] exI[of _ meta])
       (simp add: py_or_def)
qed

theorem metadata_merge_precedence_witness:
  "main ex_env ex_args ex_v1 ex_globbed = (ex_disk, Inr ex_registry)
   \<and> (''alpha'', ex_entry ''2.0'') \<in> set (modules ex_registry)
   \<and> (\<exists>dname mod_dir text meta.
           (dname, mod_dir) \<in> set ex_globbed
         \<and> read_text [dname, ''module.yaml''] mod_dir = Inr text
         \<and> read_module_yaml_scalars [dname, ''module.yaml''] text = Inr meta
         \<and> name meta = ''alpha''
         \<and> md_description (e_metadata (ex_entry ''2.0'')) = JString ''Legacy text''
         \<and> md_description_zh (e_metadata (ex_entry ''2.0'')) = JString ''Legacy text''
         \<and> md_author (e_metadata (ex_entry ''2.0'')) = JString ''unknown''
         \<and> md_keywords (e_metadata (ex_entry ''2.0'')) = JArray [JString ''review''])"
proof -
  have mem: "(''alpha'', ex_entry ''2.0'') \<in> set (modules ex_registry)" by (simp add: ex_modules)
  from metadata_merge_precedence[OF ex_run mem] show ?thesis
    using ex_run mem by (simp add: ex_legacy_modules ex_legacy_fields ex_entry_metadata)
qed

theorem legacy_author_not_taken:
  "legacy_field (legacy_modules ex_v1) ''alpha'' ''author'' = JString []
   \<and> map_option (md_author \<circ> e_metadata)
        (map_of (modules (projr (snd (main ex_env ex_args ex_v1 ex_globbed)))) ''alpha'')
       = Some (JString ''unknown'')"
  by (simp add: ex_run ex_modules ex_legacy_modules ex_legacy_fields ex_entry_metadata)

text \<open>
  C8 fails on the code. In the descriptor below no top-level line gives \<open>tier\<close>: the only
  line that names it is indented under the mapping \<open>limits\<close>. The reader strips every line
  before it matches it, so it takes the nested value for the missing top-level key and
  returns metadata with tier \<open>deep\<close>, where the claim has it fail with MetadataIncomplete
  naming \<open>tier\<close>.
\<close>

theorem nested_tier_fills_missing_key:
  "splitlines nested_tier_descriptor
     = [''name: alpha'', ''version: 1.0'', ''responsibility: review code'', ''limits:'', ''  tier: deep'']
   \<and> filter (\<lambda>l. take 5 l = ''tier:'') (splitlines nested_tier_descriptor) = []
   \<and> read_module_yaml_scalars [''a1'', ''module.yaml''] nested_tier_descriptor
       = Inr \<lparr> name = ''alpha'', version = ''1.0'', tier = ''deep'', responsibility = ''review code'' \<rparr>
   \<and> read_module_yaml_scalars [''a1'', ''module.yaml''] nested_tier_descriptor
       \<noteq> Inl (MetadataIncomplete [''tier''] [''a1'', ''module.yaml''])"
  by (simp add: nested_tier_lines nested_tier_read)

text \<open>
  C9 fails on the code: \<open>read_line\<close> strips a line before it matches it, so a
  \<open>key: value\<close> line indented under another mapping counts as a top-level line, and the
  last such line wins. Here the nested \<open>name\<close> replaces the module's own.
\<close>

theorem nested_line_sets_name:
  "read_module_yaml_scalars [''alpha'', ''module.yaml''] nested_descriptor
     = Inr \<lparr> name = ''inner'', version = ''1.0'', tier = ''exec'', responsibility = ''review code'' \<rparr>"
  by code_simp



end
